theory Spec2Isabelle
  imports Main
begin

section \<open>Values, messages and responses\<close>

text \<open>
  The robot of \<^verbatim>\<open>robot.js\<close> is modelled for one dispatch pass at a time: the
  registries (listeners, error handlers, middleware) are fixed while a message is in
  flight, and every scheduling tick (\<^verbatim>\<open>process.nextTick\<close>, \<^verbatim>\<open>Middleware.ticker\<close>) is
  the direct continuation of the step before it.  User-supplied functions (matchers,
  callbacks, error handlers, middleware) are parameters of the model: a function either
  returns or throws, and may change the \<^verbatim>\<open>done\<close> flag of any message object.

  The pattern builder \<^verbatim>\<open>respondPattern\<close> is modelled on strings, with a parser and a
  matcher for the fragment of the pattern language it needs.

  Two revisions of \<^verbatim>\<open>robot.js\<close> are in the repository.  The complete one is
  modelled.  In the other one the classes \<^verbatim>\<open>Listener\<close> and \<^verbatim>\<open>Middleware\<close> are
  placeholders (\<^verbatim>\<open>new Listener(...)\<close> throws, so \<^verbatim>\<open>listen\<close> registers nothing) and
  \<^verbatim>\<open>processListeners\<close> is a stub: it registers and dispatches nothing.
\<close>

text \<open>
  What a \<^verbatim>\<open>throw\<close> statement throws: an Error object of one of the classes a pass
  meets, another value that has no \<^verbatim>\<open>stack\<close> (given by its text), or \<^verbatim>\<open>undefined\<close> or
  \<^verbatim>\<open>null\<close>.
\<close>

datatype jserror =
    Error string
  | TypeError string
  | SyntaxError string
  | ThrownValue string
  | ThrownUndefined
  | ThrownNull

text \<open>The values a matcher returns and a response stores as its match.\<close>

datatype jsval = JUndefined | JBool bool | JArray "string list"

fun truthy :: "jsval \<Rightarrow> bool" where
  "truthy JUndefined = False"
| "truthy (JBool b) = b"
| "truthy (JArray xs) = True"

text \<open>
  Modelled from the spec: the message variants of the absent \<^verbatim>\<open>message.js\<close>.  Every
  variant carries its user and a \<^verbatim>\<open>done\<close> flag; a CatchAll wraps one message.  A
  message is a mutable object: the value records its class, its fields and the
  identity of the object, and the \<^verbatim>\<open>done\<close> flag of object \<open>i\<close> is \<open>heap i\<close>.
\<close>

datatype message =
    TextMessage string nat string
  | EnterMessage string nat
  | LeaveMessage string nat
  | TopicMessage string nat
  | CatchAllMessage string nat message

type_synonym heap = "nat \<Rightarrow> bool"

fun user :: "message \<Rightarrow> string" where
  "user (TextMessage u i t) = u"
| "user (EnterMessage u i) = u"
| "user (LeaveMessage u i) = u"
| "user (TopicMessage u i) = u"
| "user (CatchAllMessage u i m) = u"

fun ident :: "message \<Rightarrow> nat" where
  "ident (TextMessage u i t) = i"
| "ident (EnterMessage u i) = i"
| "ident (LeaveMessage u i) = i"
| "ident (TopicMessage u i) = i"
| "ident (CatchAllMessage u i m) = i"

text \<open>The largest object identity inside a message, for allocating a new object.\<close>

fun max_ident :: "message \<Rightarrow> nat" where
  "max_ident (CatchAllMessage u i m) = max i (max_ident m)"
| "max_ident m = ident m"

definition is_done :: "heap \<Rightarrow> message \<Rightarrow> bool" where
  "is_done hp m = hp (ident m)"

text \<open>\<^verbatim>\<open>message.finish()\<close>: the message is done.\<close>

definition finish :: "message \<Rightarrow> heap \<Rightarrow> heap" where
  "finish m hp = hp(ident m := True)"

text \<open>The \<^verbatim>\<open>instanceof\<close> tests of \<^verbatim>\<open>robot.js\<close>.\<close>

fun instanceof_EnterMessage :: "message \<Rightarrow> bool" where
  "instanceof_EnterMessage (EnterMessage u i) = True"
| "instanceof_EnterMessage m = False"

fun instanceof_LeaveMessage :: "message \<Rightarrow> bool" where
  "instanceof_LeaveMessage (LeaveMessage u i) = True"
| "instanceof_LeaveMessage m = False"

fun instanceof_TopicMessage :: "message \<Rightarrow> bool" where
  "instanceof_TopicMessage (TopicMessage u i) = True"
| "instanceof_TopicMessage m = False"

fun instanceof_CatchAllMessage :: "message \<Rightarrow> bool" where
  "instanceof_CatchAllMessage (CatchAllMessage u i m) = True"
| "instanceof_CatchAllMessage m = False"

text \<open>
  \<^verbatim>\<open>new CatchAllMessage(message)\<close>: a new object (its \<^verbatim>\<open>done\<close> flag false) that
  keeps the wrapped message and its user.
\<close>

definition new_CatchAllMessage :: "message \<Rightarrow> heap \<Rightarrow> message \<times> heap" where
  "new_CatchAllMessage m hp =
     (let i = Suc (max_ident m) in (CatchAllMessage (user m) i m, hp(i := False)))"

text \<open>The property read \<^verbatim>\<open>msg.message\<close> on a message: undefined unless a CatchAll.\<close>

fun message_property :: "message \<Rightarrow> message option" where
  "message_property (CatchAllMessage u i m) = Some m"
| "message_property m = None"

text \<open>
  Modelled from the spec: a response of the absent \<^verbatim>\<open>response.js\<close>, as far as the robot
  uses it: the message it answers (a field a callback may overwrite, also with
  undefined) and the match.
\<close>

record response =
  message :: "message option"
  match :: jsval

definition new_Response :: "message \<Rightarrow> jsval \<Rightarrow> response" where
  "new_Response m v = \<lparr>message = Some m, match = v\<rparr>"

text \<open>
  What calling a user function does: it may change \<^verbatim>\<open>done\<close> flags, and it returns
  (\<open>None\<close>) or throws.
\<close>

type_synonym effect = "heap \<Rightarrow> heap \<times> jserror option"

type_synonym callback = "response \<Rightarrow> effect"

type_synonym options = "(string \<times> string) list"

text \<open>An argument that is an options object or a function; calling an object throws.\<close>

datatype jsarg = Options options | Function callback

fun call :: "jsarg \<Rightarrow> callback" where
  "call (Function f) res hp = f res hp"
| "call (Options opts) res hp = (hp, Some (TypeError ''callback is not a function''))"

section \<open>The listener registry\<close>

record listener =
  matcher :: "message \<Rightarrow> jserror + jsval"
  options :: jsarg
  callback :: callback

type_synonym error_handler = "jserror \<Rightarrow> response option \<Rightarrow> effect"

record dispatch_context =
  ctx_listener :: "nat option"
  response :: response

datatype mw_action = CallsNext | CallsDone | Throws jserror | CallsNeither

type_synonym middleware = "dispatch_context \<Rightarrow> heap \<Rightarrow> heap \<times> mw_action"

record robot =
  name :: string
  robot_alias :: "string option"
  listeners :: "listener list"
  errorHandlers :: "error_handler list"
  listener_middleware :: "middleware list"
  receive_middleware :: "middleware list"

definition listen :: "(message \<Rightarrow> jserror + jsval) \<Rightarrow> jsarg \<Rightarrow> callback \<Rightarrow> robot \<Rightarrow> robot" where
  "listen m opts cb r =
     r\<lparr>listeners := listeners r @ [\<lparr>matcher = m, options = opts, callback = cb\<rparr>]\<rparr>"

definition enter :: "jsarg \<Rightarrow> callback \<Rightarrow> robot \<Rightarrow> robot" where
  "enter opts cb r = listen (\<lambda>msg. Inr (JBool (instanceof_EnterMessage msg))) opts cb r"

definition leave :: "jsarg \<Rightarrow> callback \<Rightarrow> robot \<Rightarrow> robot" where
  "leave opts cb r = listen (\<lambda>msg. Inr (JBool (instanceof_LeaveMessage msg))) opts cb r"

definition topic :: "jsarg \<Rightarrow> callback \<Rightarrow> robot \<Rightarrow> robot" where
  "topic opts cb r = listen (\<lambda>msg. Inr (JBool (instanceof_TopicMessage msg))) opts cb r"

definition error :: "error_handler \<Rightarrow> robot \<Rightarrow> robot" where
  "error h r = r\<lparr>errorHandlers := errorHandlers r @ [h]\<rparr>"

text \<open>
  \<^verbatim>\<open>catchAll(options, callback)\<close>; with the callback omitted the first argument is the
  callback and the options are empty.  The registered callback overwrites the
  response's message with \<^verbatim>\<open>msg.message.message\<close> (a TypeError when the response has
  no message) and calls the user's callback.
\<close>

definition catchAll :: "jsarg \<Rightarrow> jsarg option \<Rightarrow> robot \<Rightarrow> robot" where
  "catchAll opts cb r =
     (let (callback', options') =
            (case cb of None \<Rightarrow> (opts, Options []) | Some f \<Rightarrow> (f, opts))
      in listen (\<lambda>msg. Inr (JBool (instanceof_CatchAllMessage msg))) options'
           (\<lambda>msg hp.
              case message msg of
                None \<Rightarrow> (hp, Some (TypeError ''Cannot read property message of undefined''))
              | Some m \<Rightarrow> call callback' (msg\<lparr>message := message_property m\<rparr>) hp)
           r)"

section \<open>State of a dispatch pass\<close>

text \<open>
  What a pass can change and what it can be seen to do: the \<^verbatim>\<open>done\<close> flags, and the
  trace of logger lines and of calls to user functions, in the order they happen.
\<close>

datatype event =
    LoggerError string
  | LoggerWarning string
  | LoggerDebug string
  | ErrorHandlerCalled nat jserror "response option"
  | MatcherCalled nat message
  | CallbackCalled nat response
  | DoneCalled string

record state =
  heap :: heap
  trace :: "event list"

definition emit_event :: "event \<Rightarrow> state \<Rightarrow> state" where
  "emit_event e st = st\<lparr>trace := trace st @ [e]\<rparr>"

text \<open>
  How a call ends: it returns, it throws to its caller, or control never comes back
  (a continuation that is never called).
\<close>

datatype 'a result = Return 'a | Throw jserror | NoReturn

section \<open>The error channel\<close>

text \<open>
  The property read \<^verbatim>\<open>err.stack\<close>: the text of an Error object, undefined on another
  value, and a TypeError on \<^verbatim>\<open>undefined\<close> and on \<^verbatim>\<open>null\<close>.
\<close>

fun stack :: "jserror \<Rightarrow> jserror + string" where
  "stack (Error s) = Inr (''Error: '' @ s)"
| "stack (TypeError s) = Inr (''TypeError: '' @ s)"
| "stack (SyntaxError s) = Inr (''SyntaxError: '' @ s)"
| "stack (ThrownValue v) = Inr ''undefined''"
| "stack ThrownUndefined = Inl (TypeError ''Cannot read property stack of undefined'')"
| "stack ThrownNull = Inl (TypeError ''Cannot read property stack of null'')"

text \<open>
  The value of \<^verbatim>\<open>this\<close> inside a function.  \<^verbatim>\<open>robot.js\<close> is strict-mode code, so a
  \<^verbatim>\<open>function\<close> expression called without a receiver has \<^verbatim>\<open>this\<close> undefined; an arrow
  function has the \<^verbatim>\<open>this\<close> of the method around it.  Reading \<^verbatim>\<open>this.logger\<close> on
  undefined throws a TypeError.
\<close>

datatype this_binding = ThisUndefined | ThisRobot

fun logger :: "this_binding \<Rightarrow> jserror + unit" where
  "logger ThisUndefined = Inl (TypeError ''Cannot read property logger of undefined'')"
| "logger ThisRobot = Inr ()"

text \<open>
  The body of \<^verbatim>\<open>errorHandlers.forEach(function(errorHandler) {...})\<close>, handler by
  handler: the handler is called with \<open>(err, res)\<close>; when it throws, the catch block
  evaluates \<^verbatim>\<open>this.logger.error(...)\<close> with the \<^verbatim>\<open>this\<close> of the function expression,
  and then the text to log, which reads \<^verbatim>\<open>error.stack\<close>.  An exception of the catch
  block leaves \<^verbatim>\<open>forEach\<close>.  In \<^verbatim>\<open>invokeErrorHandlers\<close> the
  callback is a \<^verbatim>\<open>function\<close> expression and \<^verbatim>\<open>forEach\<close> gets no \<^verbatim>\<open>thisArg\<close>: its
  \<^verbatim>\<open>this\<close> is undefined.
\<close>

fun forEach_errorHandler ::
  "this_binding \<Rightarrow> nat \<Rightarrow> error_handler list \<Rightarrow> jserror \<Rightarrow> response option \<Rightarrow> state
     \<Rightarrow> unit result \<times> state" where
  "forEach_errorHandler this i [] err res st = (Return (), st)"
| "forEach_errorHandler this i (errorHandler # hs) err res st =
     (let st1 = emit_event (ErrorHandlerCalled i err res) st;
          (hp, thrown) = errorHandler err res (heap st1);
          st2 = st1\<lparr>heap := hp\<rparr>
      in case thrown of
           None \<Rightarrow> forEach_errorHandler this (Suc i) hs err res st2
         | Some error' \<Rightarrow>
             (case logger this of
                Inl e \<Rightarrow> (Throw e, st2)
              | Inr l \<Rightarrow>
                  (case stack error' of
                     Inl e \<Rightarrow> (Throw e, st2)
                   | Inr s \<Rightarrow>
                       forEach_errorHandler this (Suc i) hs err res
                         (emit_event (LoggerError (''while invoking error handler: '' @ s))
                            st2))))"

text \<open>
  \<^verbatim>\<open>invokeErrorHandlers(err, res)\<close>: it logs \<^verbatim>\<open>err.stack\<close> and then calls the handlers.
\<close>

definition invokeErrorHandlers ::
  "robot \<Rightarrow> jserror \<Rightarrow> response option \<Rightarrow> state \<Rightarrow> unit result \<times> state" where
  "invokeErrorHandlers r err res st =
     (case stack err of
        Inl e \<Rightarrow> (Throw e, st)
      | Inr s \<Rightarrow>
          forEach_errorHandler ThisUndefined 0 (errorHandlers r) err res
            (emit_event (LoggerError s) st))"

text \<open>
  \<^verbatim>\<open>emit('error', err, res)\<close>: the constructor subscribes \<^verbatim>\<open>invokeErrorHandlers\<close> to
  the event.
\<close>

definition emit_error ::
  "robot \<Rightarrow> jserror \<Rightarrow> response option \<Rightarrow> state \<Rightarrow> unit result \<times> state" where
  "emit_error r err res st = invokeErrorHandlers r err res st"

section \<open>Middleware and listeners\<close>

text \<open>
  Modelled from the spec: \<^verbatim>\<open>Middleware.execute(context, onComplete, onDone)\<close> of the
  absent \<^verbatim>\<open>middleware.js\<close>.  The stack runs from index 0.  A middleware that calls
  \<^verbatim>\<open>next(done)\<close> hands over to the one after it; one that calls \<^verbatim>\<open>done()\<close> aborts the
  chain; one that throws is reported to the error channel with the context's response
  and the chain aborts; one that calls neither stalls the chain.  The chain invokes
  the continuation it reaches, \<^verbatim>\<open>onComplete\<close> when it completes and \<^verbatim>\<open>onDone\<close> when it
  aborts: the function returns which one (\<open>Completed\<close> or \<open>Aborted\<close>), and the caller
  goes on with the continuation it passed.
\<close>

datatype chain = Completed | Aborted

fun execute ::
  "robot \<Rightarrow> middleware list \<Rightarrow> dispatch_context \<Rightarrow> state \<Rightarrow> chain result \<times> state" where
  "execute r [] ctx st = (Return Completed, st)"
| "execute r (mw # mws) ctx st =
     (let (hp, action) = mw ctx (heap st); st1 = st\<lparr>heap := hp\<rparr>
      in case action of
           CallsNext \<Rightarrow> execute r mws ctx st1
         | CallsDone \<Rightarrow> (Return Aborted, st1)
         | CallsNeither \<Rightarrow> (NoReturn, st1)
         | Throws err \<Rightarrow>
             (case emit_error r err (Some (response ctx)) st1 of
                (Return u, st2) \<Rightarrow> (Return Aborted, st2)
              | (Throw e, st2) \<Rightarrow> (Throw e, st2)
              | (NoReturn, st2) \<Rightarrow> (NoReturn, st2)))"

text \<open>
  Modelled from the spec: \<^verbatim>\<open>listener.call(message, middleware, cb)\<close> of the absent
  \<^verbatim>\<open>listener.js\<close>.  The matcher is evaluated on the message; without a match the
  listener reports not-executed.  With a match the listener middleware chain runs
  around the callback: when the chain completes the callback is called with a new
  response and the listener reports executed; when the chain aborts the listener has
  matched but not executed.  An exception of the matcher or of the callback reaches
  the caller of \<^verbatim>\<open>call\<close>.  The result is the \<^verbatim>\<open>listenerExecuted\<close> passed to \<^verbatim>\<open>cb\<close>.
\<close>

definition Listener_call ::
  "robot \<Rightarrow> nat \<Rightarrow> listener \<Rightarrow> message \<Rightarrow> state \<Rightarrow> bool result \<times> state" where
  "Listener_call r i l msg st =
     (let st0 = emit_event (MatcherCalled i msg) st
      in case matcher l msg of
           Inl e \<Rightarrow> (Throw e, st0)
         | Inr v \<Rightarrow>
             if \<not> truthy v then (Return False, st0)
             else
               (let res = new_Response msg v
                in case execute r (listener_middleware r)
                          \<lparr>ctx_listener = Some i, response = res\<rparr> st0 of
                     (Return Completed, st1) \<Rightarrow>
                       (let st2 = emit_event (CallbackCalled i res) st1;
                            (hp, thrown) = callback l res (heap st2);
                            st3 = st2\<lparr>heap := hp\<rparr>
                        in case thrown of
                             None \<Rightarrow> (Return True, st3)
                           | Some e \<Rightarrow> (Throw e, st3))
                   | (Return Aborted, st1) \<Rightarrow> (Return False, st1)
                   | (Throw e, st1) \<Rightarrow> (Throw e, st1)
                   | (NoReturn, st1) \<Rightarrow> (NoReturn, st1)))"

section \<open>The dispatcher\<close>

text \<open>
  The iterator that \<^verbatim>\<open>processListeners\<close> gives to \<^verbatim>\<open>async.detectSeries\<close>, for the
  listener at index \<open>i\<close>.  It returns the truth value it passes to \<^verbatim>\<open>cb\<close> and the new
  value of \<^verbatim>\<open>anyListenersExecuted\<close>.  An exception of \<^verbatim>\<open>listener.call\<close> is emitted as
  an error event with a new response (match \<^verbatim>\<open>[]\<close>) and the iterator passes false.
\<close>

definition iterator ::
  "robot \<Rightarrow> message \<Rightarrow> nat \<Rightarrow> listener \<Rightarrow> bool \<Rightarrow> state \<Rightarrow> (bool \<times> bool) result \<times> state" where
  "iterator r msg i l anyListenersExecuted st =
     (case Listener_call r i l msg st of
        (Return listenerExecuted, st1) \<Rightarrow>
          (Return (is_done (heap st1) msg, anyListenersExecuted \<or> listenerExecuted), st1)
      | (Throw error', st1) \<Rightarrow>
          (case emit_error r error' (Some (new_Response msg (JArray []))) st1 of
             (Return u, st2) \<Rightarrow> (Return (False, anyListenersExecuted), st2)
           | (Throw e, st2) \<Rightarrow> (Throw e, st2)
           | (NoReturn, st2) \<Rightarrow> (NoReturn, st2))
      | (NoReturn, st1) \<Rightarrow> (NoReturn, st1))"

text \<open>
  \<^verbatim>\<open>async.detectSeries(arr, iterator, callback)\<close> of the async library, with the
  one-argument iterator callback the source uses: the items are tried one after the
  other, and the series ends at the first item whose iterator passes a true value, or
  when the items are exhausted.  The result is \<^verbatim>\<open>anyListenersExecuted\<close> at that
  moment, when the final callback runs.
\<close>

fun detectSeries ::
  "robot \<Rightarrow> message \<Rightarrow> nat \<Rightarrow> listener list \<Rightarrow> bool \<Rightarrow> state \<Rightarrow> bool result \<times> state" where
  "detectSeries r msg i [] anyListenersExecuted st = (Return anyListenersExecuted, st)"
| "detectSeries r msg i (l # ls) anyListenersExecuted st =
     (case iterator r msg i l anyListenersExecuted st of
        (Return (truth, any'), st1) \<Rightarrow>
          if truth then (Return any', st1) else detectSeries r msg (Suc i) ls any' st1
      | (Throw e, st1) \<Rightarrow> (Throw e, st1)
      | (NoReturn, st1) \<Rightarrow> (NoReturn, st1))"

text \<open>
  Calling the completion callback, a function given by its name.  A callback that was
  left out is \<^verbatim>\<open>undefined\<close>, and calling \<^verbatim>\<open>undefined\<close> throws a TypeError.
\<close>

fun call_done :: "string option \<Rightarrow> state \<Rightarrow> unit result \<times> state" where
  "call_done None st = (Throw (TypeError ''done is not a function''), st)"
| "call_done (Some f) st = (Return (), emit_event (DoneCalled f) st)"

text \<open>
  \<^verbatim>\<open>receive(message, cb)\<close> and \<^verbatim>\<open>processListeners(context, done)\<close>.  A context whose
  response has no message cannot come from \<^verbatim>\<open>receive\<close>; reading its \<^verbatim>\<open>done\<close> flag
  throws.  \<^verbatim>\<open>receive\<close> passes \<^verbatim>\<open>processListeners\<close> to the receive chain as \<^verbatim>\<open>onComplete\<close>
  and the completion callback as \<^verbatim>\<open>onDone\<close>.  At the end of the search
  \<^verbatim>\<open>processListeners\<close> calls the completion callback (\<^verbatim>\<open>process.nextTick(done)\<close>) only
  under its test \<^verbatim>\<open>done != null\<close>.
\<close>

function receive :: "robot \<Rightarrow> message \<Rightarrow> string option \<Rightarrow> state \<Rightarrow> unit result \<times> state"
  and processListeners ::
    "robot \<Rightarrow> dispatch_context \<Rightarrow> string option \<Rightarrow> state \<Rightarrow> unit result \<times> state" where
  "receive r message' cb st =
     (let context = \<lparr>ctx_listener = None, response = new_Response message' JUndefined\<rparr>
      in case execute r (receive_middleware r) context st of
           (Return Completed, st1) \<Rightarrow> processListeners r context cb st1
         | (Return Aborted, st1) \<Rightarrow> call_done cb st1
         | (Throw e, st1) \<Rightarrow> (Throw e, st1)
         | (NoReturn, st1) \<Rightarrow> (NoReturn, st1))"
| "processListeners r context done' st =
     (case message (response context) of
        None \<Rightarrow> (Throw (TypeError ''Cannot read property done of undefined''), st)
      | Some msg \<Rightarrow>
          (case detectSeries r msg 0 (listeners r) False st of
             (Return anyListenersExecuted, st1) \<Rightarrow>
               if \<not> instanceof_CatchAllMessage msg \<and> \<not> anyListenersExecuted then
                 (let st2 = emit_event
                              (LoggerDebug ''No listeners executed; falling back to catch-all'')
                              st1;
                      (catchAll', hp) = new_CatchAllMessage msg (heap st2)
                  in receive r catchAll' done' (st2\<lparr>heap := hp\<rparr>))
               else if done' \<noteq> None then call_done done' st1
               else (Return (), st1)
           | (Throw e, st1) \<Rightarrow> (Throw e, st1)
           | (NoReturn, st1) \<Rightarrow> (NoReturn, st1)))"
  by pat_completeness auto
termination
  by (relation "measure (\<lambda>x. case x of
         Inl (r, m, cb, st) \<Rightarrow> (if instanceof_CatchAllMessage m then 1 else 3)
       | Inr (r, ctx, cb, st) \<Rightarrow>
           (case message (response ctx) of
              None \<Rightarrow> 0
            | Some m \<Rightarrow> (if instanceof_CatchAllMessage m then 0 else 2)))")
     (auto simp: new_Response_def new_CatchAllMessage_def Let_def)

section \<open>Views of the trace and the environment of a pass\<close>

text \<open>
  Views of the trace: the completion callbacks called, the debug lines logged, the
  listeners attempted (their matcher was evaluated) and the listeners executed (their
  callback was called), each in the order of the trace.
\<close>

fun done_call :: "event \<Rightarrow> string list" where
  "done_call (DoneCalled f) = [f]"
| "done_call e = []"

fun debug_line :: "event \<Rightarrow> string list" where
  "debug_line (LoggerDebug s) = [s]"
| "debug_line e = []"

fun attempted :: "event \<Rightarrow> nat list" where
  "attempted (MatcherCalled i m) = [i]"
| "attempted e = []"

fun executed :: "event \<Rightarrow> (nat \<times> response) list" where
  "executed (CallbackCalled i res) = [(i, res)]"
| "executed e = []"

definition project :: "(event \<Rightarrow> 'a list) \<Rightarrow> state \<Rightarrow> 'a list" where
  "project g st = concat (map g (trace st))"

text \<open>A view that ignores what the error channel writes, and one that ignores the search.\<close>

definition error_silent :: "(event \<Rightarrow> 'a list) \<Rightarrow> bool" where
  "error_silent g \<longleftrightarrow>
     (\<forall>s. g (LoggerError s) = []) \<and> (\<forall>i e res. g (ErrorHandlerCalled i e res) = [])"

definition search_silent :: "(event \<Rightarrow> 'a list) \<Rightarrow> bool" where
  "search_silent g \<longleftrightarrow>
     error_silent g \<and> (\<forall>i m. g (MatcherCalled i m) = []) \<and> (\<forall>i res. g (CallbackCalled i res) = [])"

text \<open>
  The environment of a pass: no registered error handler throws; what the matchers,
  callbacks and middleware of the robot throw has a \<^verbatim>\<open>stack\<close> to read (nothing throws
  \<^verbatim>\<open>undefined\<close> or \<^verbatim>\<open>null\<close>); every middleware keeps its contract (it calls \<^verbatim>\<open>next\<close> or
  \<^verbatim>\<open>done\<close>, or throws); a middleware that only passes on.
\<close>

fun has_stack :: "jserror \<Rightarrow> bool" where
  "has_stack ThrownUndefined = False"
| "has_stack ThrownNull = False"
| "has_stack e = True"

definition thrown_have_stack :: "robot \<Rightarrow> bool" where
  "thrown_have_stack r \<longleftrightarrow>
     (\<forall>l \<in> set (listeners r).
        (\<forall>m e. matcher l m = Inl e \<longrightarrow> has_stack e) \<and>
        (\<forall>res hp e. snd (callback l res hp) = Some e \<longrightarrow> has_stack e)) \<and>
     (\<forall>mw \<in> set (receive_middleware r) \<union> set (listener_middleware r).
        \<forall>ctx hp e. snd (mw ctx hp) = Throws e \<longrightarrow> has_stack e)"

definition handlers_return :: "robot \<Rightarrow> bool" where
  "handlers_return r \<longleftrightarrow>
     (\<forall>h \<in> set (errorHandlers r). \<forall>err res hp. snd (h err res hp) = None)"

definition calls_next_or_done :: "middleware \<Rightarrow> bool" where
  "calls_next_or_done mw \<longleftrightarrow> (\<forall>ctx hp. snd (mw ctx hp) \<noteq> CallsNeither)"

definition middleware_contract :: "robot \<Rightarrow> bool" where
  "middleware_contract r \<longleftrightarrow>
     (\<forall>mw \<in> set (receive_middleware r) \<union> set (listener_middleware r). calls_next_or_done mw)"

definition passes_on :: "middleware \<Rightarrow> bool" where
  "passes_on mw \<longleftrightarrow> (\<forall>ctx hp. mw ctx hp = (hp, CallsNext))"

definition fallback :: event where
  "fallback = LoggerDebug ''No listeners executed; falling back to catch-all''"

section \<open>Strings and regular expressions\<close>

text \<open>
  A string is a list of code units below 256.  The JavaScript string operations that
  \<^verbatim>\<open>respondPattern\<close> uses: \<^verbatim>\<open>split\<close> and \<^verbatim>\<open>join\<close> with a one-character separator,
  \<^verbatim>\<open>shift\<close> and \<^verbatim>\<open>pop\<close> on an array (\<^verbatim>\<open>pop\<close> of an empty array is undefined).
\<close>

definition backslash :: char where
  "backslash = CHR 0x5C"

fun split :: "char \<Rightarrow> string \<Rightarrow> string list" where
  "split sep [] = [[]]"
| "split sep (c # cs) =
     (if c = sep then [] # split sep cs
      else (case split sep cs of [] \<Rightarrow> [[c]] | w # ws \<Rightarrow> (c # w) # ws))"

fun join :: "string \<Rightarrow> string list \<Rightarrow> string" where
  "join sep [] = []"
| "join sep [x] = x"
| "join sep (x # y # ys) = x @ sep @ join sep (y # ys)"

fun shift :: "'a list \<Rightarrow> 'a list" where
  "shift [] = []"
| "shift (x # xs) = xs"

fun pop :: "'a list \<Rightarrow> 'a list \<times> 'a option" where
  "pop [] = ([], None)"
| "pop (x # xs) = (butlast (x # xs), Some (last (x # xs)))"

text \<open>Character classes of the pattern language, on code units below 256.\<close>

definition is_space :: "char \<Rightarrow> bool" where
  "is_space c \<longleftrightarrow>
     c \<in> {CHR 0x09, CHR 0x0A, CHR 0x0B, CHR 0x0C, CHR 0x0D, CHR 0x20, CHR 0xA0}"

definition is_line_terminator :: "char \<Rightarrow> bool" where
  "is_line_terminator c \<longleftrightarrow> c \<in> {CHR 0x0A, CHR 0x0D}"

definition is_digit :: "char \<Rightarrow> bool" where
  "is_digit c \<longleftrightarrow> c \<in> set ''0123456789''"

definition is_lower :: "char \<Rightarrow> bool" where
  "is_lower c \<longleftrightarrow> c \<in> set ''abcdefghijklmnopqrstuvwxyz''"

definition is_upper :: "char \<Rightarrow> bool" where
  "is_upper c \<longleftrightarrow> c \<in> set ''ABCDEFGHIJKLMNOPQRSTUVWXYZ''"

definition is_word :: "char \<Rightarrow> bool" where
  "is_word c \<longleftrightarrow> is_lower c \<or> is_upper c \<or> is_digit c \<or> c = CHR ''_''"

definition to_upper :: "char \<Rightarrow> char" where
  "to_upper c =
     (case map_of (zip ''abcdefghijklmnopqrstuvwxyz'' ''ABCDEFGHIJKLMNOPQRSTUVWXYZ'') c of
        None \<Rightarrow> c
      | Some u \<Rightarrow> u)"

definition to_lower :: "char \<Rightarrow> char" where
  "to_lower c =
     (case map_of (zip ''ABCDEFGHIJKLMNOPQRSTUVWXYZ'' ''abcdefghijklmnopqrstuvwxyz'') c of
        None \<Rightarrow> c
      | Some l \<Rightarrow> l)"

text \<open>
  The replacement \<^verbatim>\<open>s.replace(/[-[\]{}()*+?.,\\^$|#\s]/g, '\\$&')\<close>: a backslash
  before every character of the class.
\<close>

definition special :: "char \<Rightarrow> bool" where
  "special c \<longleftrightarrow> c \<in> set ''-[]{}()*+?.,^$|#'' \<or> c = backslash \<or> is_space c"

fun escape :: "string \<Rightarrow> string" where
  "escape [] = []"
| "escape (c # cs) = (if special c then backslash # c # escape cs else c # escape cs)"

subsection \<open>Patterns\<close>

text \<open>
  The fragment of the ECMAScript pattern language that the model covers: characters,
  the dot, identity escapes of punctuation, the control escapes \<^verbatim>\<open>\t \n \v \f \r\<close>, the
  class escapes \<^verbatim>\<open>\s \S \d \D \w \W\<close>, character classes with ranges and negation, the
  anchors, groups (capturing or not: only whether a string matches is modelled),
  alternation and the quantifiers \<^verbatim>\<open>* + ?\<close>, greedy or lazy.  Everything else (counted
  repetition, back references, look-ahead, word boundaries, other letter escapes) is
  outside the fragment, and so is a pattern with a syntax error: the parser returns
  \<open>None\<close> for both.  Case folding is that of the ASCII letters.
\<close>

datatype citem =
    CChar char | CRange char char
  | CSpace | CNotSpace | CDigit | CNotDigit | CWord | CNotWord

datatype re =
    Fail | Epsilon | Lit char | Dot | Class bool "citem list" | Bol | Eol
  | Seq re re | Alt re re | Star re

fun seq_of :: "re list \<Rightarrow> re" where
  "seq_of [] = Epsilon"
| "seq_of [r] = r"
| "seq_of (r # rs) = Seq r (seq_of rs)"

fun alt_of :: "re list \<Rightarrow> re" where
  "alt_of [] = Epsilon"
| "alt_of [r] = r"
| "alt_of (r # rs) = Alt r (alt_of rs)"

text \<open>
  The parser reads the pattern one character at a time.  A frame holds the finished
  alternatives of the group being read and the terms of its current alternative; the
  stack holds the frames of the enclosing groups.
\<close>

type_synonym frame = "re list \<times> re list"

fun close_frame :: "frame \<Rightarrow> re" where
  "close_frame (alts, cur) = alt_of (alts @ [seq_of cur])"

fun push_term :: "re \<Rightarrow> frame \<Rightarrow> frame" where
  "push_term r (alts, cur) = (alts, cur @ [r])"

fun quantify :: "(re \<Rightarrow> re) \<Rightarrow> frame \<Rightarrow> frame" where
  "quantify f (alts, cur) = (alts, butlast cur @ [f (last cur)])"

fun next_alternative :: "frame \<Rightarrow> frame" where
  "next_alternative (alts, cur) = (alts @ [seq_of cur], [])"

datatype mode =
    Normal | Escape | GroupOpen | GroupQuestion
  | ClassStart | ClassBody bool "citem list" | ClassEscape bool "citem list"
  | ClassRange bool "citem list" char

text \<open>Whether the last term can take a quantifier, or is one (a \<^verbatim>\<open>?\<close> then makes it lazy).\<close>

datatype qstate = NoAtom | Atom | Quantified

type_synonym pstate = "mode \<times> qstate \<times> frame \<times> frame list"

definition escape_atom :: "char \<Rightarrow> re option" where
  "escape_atom c =
     (if c = CHR ''s'' then Some (Class False [CSpace])
      else if c = CHR ''S'' then Some (Class False [CNotSpace])
      else if c = CHR ''d'' then Some (Class False [CDigit])
      else if c = CHR ''D'' then Some (Class False [CNotDigit])
      else if c = CHR ''w'' then Some (Class False [CWord])
      else if c = CHR ''W'' then Some (Class False [CNotWord])
      else if c = CHR ''t'' then Some (Lit (CHR 0x09))
      else if c = CHR ''n'' then Some (Lit (CHR 0x0A))
      else if c = CHR ''v'' then Some (Lit (CHR 0x0B))
      else if c = CHR ''f'' then Some (Lit (CHR 0x0C))
      else if c = CHR ''r'' then Some (Lit (CHR 0x0D))
      else if is_word c then None
      else Some (Lit c))"

definition class_escape_item :: "char \<Rightarrow> citem option" where
  "class_escape_item c =
     (if c = CHR ''s'' then Some CSpace
      else if c = CHR ''S'' then Some CNotSpace
      else if c = CHR ''d'' then Some CDigit
      else if c = CHR ''D'' then Some CNotDigit
      else if c = CHR ''w'' then Some CWord
      else if c = CHR ''W'' then Some CNotWord
      else if c = CHR ''t'' then Some (CChar (CHR 0x09))
      else if c = CHR ''n'' then Some (CChar (CHR 0x0A))
      else if c = CHR ''v'' then Some (CChar (CHR 0x0B))
      else if c = CHR ''f'' then Some (CChar (CHR 0x0C))
      else if c = CHR ''r'' then Some (CChar (CHR 0x0D))
      else if c = CHR ''b'' then Some (CChar (CHR 0x08))
      else if is_word c then None
      else Some (CChar c))"

definition normal_step :: "qstate \<Rightarrow> frame \<Rightarrow> frame list \<Rightarrow> char \<Rightarrow> pstate option" where
  "normal_step q fr stk c =
     (if c = backslash then Some (Escape, q, fr, stk)
      else if c = CHR ''['' then Some (ClassStart, q, fr, stk)
      else if c = CHR ''('' then Some (GroupOpen, NoAtom, ([], []), fr # stk)
      else if c = CHR '')'' then
        (case stk of
           [] \<Rightarrow> None
         | parent # rest \<Rightarrow> Some (Normal, Atom, push_term (close_frame fr) parent, rest))
      else if c = CHR ''|'' then Some (Normal, NoAtom, next_alternative fr, stk)
      else if c = CHR ''*'' then
        (if q = Atom then Some (Normal, Quantified, quantify Star fr, stk) else None)
      else if c = CHR ''+'' then
        (if q = Atom then Some (Normal, Quantified, quantify (\<lambda>r. Seq r (Star r)) fr, stk)
         else None)
      else if c = CHR ''?'' then
        (if q = Atom then Some (Normal, Quantified, quantify (\<lambda>r. Alt r Epsilon) fr, stk)
         else if q = Quantified then Some (Normal, NoAtom, fr, stk)
         else None)
      else if c = CHR ''^'' then Some (Normal, NoAtom, push_term Bol fr, stk)
      else if c = CHR ''$'' then Some (Normal, NoAtom, push_term Eol fr, stk)
      else if c = CHR ''.'' then Some (Normal, Atom, push_term Dot fr, stk)
      else if c = CHR ''{'' \<or> c = CHR ''}'' \<or> c = CHR '']'' then None
      else Some (Normal, Atom, push_term (Lit c) fr, stk))"

definition class_step ::
  "bool \<Rightarrow> citem list \<Rightarrow> qstate \<Rightarrow> frame \<Rightarrow> frame list \<Rightarrow> char \<Rightarrow> pstate option" where
  "class_step neg items q fr stk c =
     (if c = CHR '']'' then Some (Normal, Atom, push_term (Class neg items) fr, stk)
      else if c = backslash then Some (ClassEscape neg items, q, fr, stk)
      else if c = CHR ''-'' then
        (case rev items of
           CChar lo # front \<Rightarrow> Some (ClassRange neg (rev front) lo, q, fr, stk)
         | _ \<Rightarrow> Some (ClassBody neg (items @ [CChar c]), q, fr, stk))
      else Some (ClassBody neg (items @ [CChar c]), q, fr, stk))"

fun step :: "pstate \<Rightarrow> char \<Rightarrow> pstate option" where
  "step (Normal, q, fr, stk) c = normal_step q fr stk c"
| "step (Escape, q, fr, stk) c =
     (case escape_atom c of
        None \<Rightarrow> None
      | Some r \<Rightarrow> Some (Normal, Atom, push_term r fr, stk))"
| "step (GroupOpen, q, fr, stk) c =
     (if c = CHR ''?'' then Some (GroupQuestion, q, fr, stk) else normal_step q fr stk c)"
| "step (GroupQuestion, q, fr, stk) c =
     (if c = CHR '':'' then Some (Normal, NoAtom, fr, stk) else None)"
| "step (ClassStart, q, fr, stk) c =
     (if c = CHR ''^'' then Some (ClassBody True [], q, fr, stk)
      else class_step False [] q fr stk c)"
| "step (ClassBody neg items, q, fr, stk) c = class_step neg items q fr stk c"
| "step (ClassEscape neg items, q, fr, stk) c =
     (case class_escape_item c of
        None \<Rightarrow> None
      | Some item \<Rightarrow> Some (ClassBody neg (items @ [item]), q, fr, stk))"
| "step (ClassRange neg items lo, q, fr, stk) c =
     (if c = CHR '']'' then
        Some (Normal, Atom, push_term (Class neg (items @ [CChar lo, CChar (CHR ''-'')])) fr, stk)
      else if c = backslash then None
      else if (of_char lo :: nat) \<le> of_char c then
        Some (ClassBody neg (items @ [CRange lo c]), q, fr, stk)
      else None)"

fun run :: "pstate \<Rightarrow> string \<Rightarrow> pstate option" where
  "run st [] = Some st"
| "run st (c # cs) = (case step st c of None \<Rightarrow> None | Some st' \<Rightarrow> run st' cs)"

definition parse :: "string \<Rightarrow> re option" where
  "parse p =
     (case run (Normal, NoAtom, ([], []), []) p of
        Some (Normal, q, fr, []) \<Rightarrow> Some (close_frame fr)
      | _ \<Rightarrow> None)"

subsection \<open>Matching\<close>

definition canonicalize :: "bool \<Rightarrow> char \<Rightarrow> char" where
  "canonicalize ignoreCase c = (if ignoreCase then to_upper c else c)"

definition in_range :: "char \<Rightarrow> char \<Rightarrow> char \<Rightarrow> bool" where
  "in_range lo hi c \<longleftrightarrow> (of_char lo :: nat) \<le> of_char c \<and> (of_char c :: nat) \<le> of_char hi"

fun citem_match :: "bool \<Rightarrow> char \<Rightarrow> citem \<Rightarrow> bool" where
  "citem_match ic c (CChar d) = (canonicalize ic c = canonicalize ic d)"
| "citem_match ic c (CRange lo hi) =
     (in_range lo hi c \<or> ic \<and> (in_range lo hi (to_upper c) \<or> in_range lo hi (to_lower c)))"
| "citem_match ic c CSpace = is_space c"
| "citem_match ic c CNotSpace = (\<not> is_space c)"
| "citem_match ic c CDigit = is_digit c"
| "citem_match ic c CNotDigit = (\<not> is_digit c)"
| "citem_match ic c CWord = is_word c"
| "citem_match ic c CNotWord = (\<not> is_word c)"

definition class_match :: "bool \<Rightarrow> bool \<Rightarrow> citem list \<Rightarrow> char \<Rightarrow> bool" where
  "class_match ic neg items c \<longleftrightarrow> (neg \<noteq> list_ex (citem_match ic c) items)"

text \<open>
  Whether a pattern matches the empty string at a position, given the character before
  the position and the one after it (\<open>None\<close> at either end of the input).
\<close>

fun nullable :: "bool \<Rightarrow> char option \<Rightarrow> char option \<Rightarrow> re \<Rightarrow> bool" where
  "nullable ml prev nxt Fail = False"
| "nullable ml prev nxt Epsilon = True"
| "nullable ml prev nxt (Lit c) = False"
| "nullable ml prev nxt Dot = False"
| "nullable ml prev nxt (Class neg items) = False"
| "nullable ml prev nxt Bol =
     (case prev of None \<Rightarrow> True | Some c \<Rightarrow> ml \<and> is_line_terminator c)"
| "nullable ml prev nxt Eol =
     (case nxt of None \<Rightarrow> True | Some c \<Rightarrow> ml \<and> is_line_terminator c)"
| "nullable ml prev nxt (Seq r s) = (nullable ml prev nxt r \<and> nullable ml prev nxt s)"
| "nullable ml prev nxt (Alt r s) = (nullable ml prev nxt r \<or> nullable ml prev nxt s)"
| "nullable ml prev nxt (Star r) = True"

fun seq :: "re \<Rightarrow> re \<Rightarrow> re" where
  "seq Fail s = Fail"
| "seq Epsilon s = s"
| "seq r s = Seq r s"

fun alt :: "re \<Rightarrow> re \<Rightarrow> re" where
  "alt Fail s = s"
| "alt r Fail = r"
| "alt r s = Alt r s"

text \<open>
  What is left of a pattern after it has consumed the character \<open>c\<close> at a position
  whose previous character is \<open>prev\<close>.
\<close>

fun deriv :: "bool \<Rightarrow> bool \<Rightarrow> char option \<Rightarrow> char \<Rightarrow> re \<Rightarrow> re" where
  "deriv ic ml prev c Fail = Fail"
| "deriv ic ml prev c Epsilon = Fail"
| "deriv ic ml prev c (Lit d) = (if canonicalize ic c = canonicalize ic d then Epsilon else Fail)"
| "deriv ic ml prev c Dot = (if is_line_terminator c then Fail else Epsilon)"
| "deriv ic ml prev c (Class neg items) = (if class_match ic neg items c then Epsilon else Fail)"
| "deriv ic ml prev c Bol = Fail"
| "deriv ic ml prev c Eol = Fail"
| "deriv ic ml prev c (Seq r s) =
     alt (seq (deriv ic ml prev c r) s)
         (if nullable ml prev (Some c) r then deriv ic ml prev c s else Fail)"
| "deriv ic ml prev c (Alt r s) = alt (deriv ic ml prev c r) (deriv ic ml prev c s)"
| "deriv ic ml prev c (Star r) = seq (deriv ic ml prev c r) (Star r)"

text \<open>A match that starts at the current position, and a match that starts anywhere.\<close>

fun matches_here :: "bool \<Rightarrow> bool \<Rightarrow> char option \<Rightarrow> re \<Rightarrow> string \<Rightarrow> bool" where
  "matches_here ic ml prev r [] = nullable ml prev None r"
| "matches_here ic ml prev r (c # cs) =
     (nullable ml prev (Some c) r \<or> matches_here ic ml (Some c) (deriv ic ml prev c r) cs)"

fun search :: "bool \<Rightarrow> bool \<Rightarrow> char option \<Rightarrow> re \<Rightarrow> string \<Rightarrow> bool" where
  "search ic ml prev r [] = matches_here ic ml prev r []"
| "search ic ml prev r (c # cs) =
     (matches_here ic ml prev r (c # cs) \<or> search ic ml (Some c) r cs)"

subsection \<open>RegExp objects\<close>

record regexp =
  source :: string
  flags :: string

definition toString :: "regexp \<Rightarrow> string" where
  "toString r = ''/'' @ source r @ ''/'' @ flags r"

text \<open>The flags the model covers: \<^verbatim>\<open>g\<close>, \<^verbatim>\<open>i\<close> and \<^verbatim>\<open>m\<close>, each at most once.\<close>

definition valid_flags :: "string \<Rightarrow> bool" where
  "valid_flags fl \<longleftrightarrow> set fl \<subseteq> set ''gim'' \<and> distinct fl"

text \<open>
  \<^verbatim>\<open>new RegExp(pattern, flags)\<close>, with undefined flags read as none; \<open>None\<close> when the
  pattern or the flags are outside the fragment (a SyntaxError among them).
\<close>

definition new_RegExp :: "string \<Rightarrow> string option \<Rightarrow> regexp option" where
  "new_RegExp p fl =
     (let f = (case fl of None \<Rightarrow> [] | Some f \<Rightarrow> f)
      in if valid_flags f \<and> parse p \<noteq> None then Some \<lparr>source = p, flags = f\<rparr> else None)"

text \<open>
  \<^verbatim>\<open>regex.test(s)\<close> on a regular expression whose \<^verbatim>\<open>lastIndex\<close> is 0: whether the
  pattern matches somewhere in \<open>s\<close>.
\<close>

definition test :: "regexp \<Rightarrow> string \<Rightarrow> bool option" where
  "test r s =
     (case parse (source r) of
        None \<Rightarrow> None
      | Some p \<Rightarrow>
          if valid_flags (flags r)
          then Some (search (CHR ''i'' \<in> set (flags r)) (CHR ''m'' \<in> set (flags r)) None p s)
          else None)"

section \<open>The pattern builder\<close>

text \<open>
  \<^verbatim>\<open>respondPattern(regex)\<close>.  The result is the warnings it logs and the regular
  expression it builds.  An alias that is \<^verbatim>\<open>false\<close> or the empty string counts as no
  alias.
\<close>

definition respondPattern :: "robot \<Rightarrow> regexp \<Rightarrow> event list \<times> regexp option" where
  "respondPattern r regex =
     (let re = split (CHR ''/'') (toString regex);
          re = shift re;
          (re, modifiers) = pop re;
          warnings =
            (case re of
               (c # cs) # rest \<Rightarrow>
                 if c = CHR ''^'' then
                   [LoggerWarning
                      (''Anchors don't work well with respond, perhaps you want to use 'hear'' @ [CHR 0x27]),
                    LoggerWarning (''The regex in question was '' @ toString regex)]
                 else []
             | _ \<Rightarrow> []);
          pattern = join ''/'' re;
          name' = escape (name r);
          newRegex =
            (case robot_alias r of
               Some (c # cs) \<Rightarrow>
                 (let alias' = escape (c # cs);
                      (a, b) = (if length name' > length alias' then (name', alias')
                                else (alias', name'))
                  in new_RegExp
                       (''^'' @ [backslash] @ ''s*[@]?(?:'' @ a @ ''[:,]?|'' @ b @ ''[:,]?)''
                          @ [backslash] @ ''s*(?:'' @ pattern @ '')'')
                       modifiers)
             | _ \<Rightarrow>
                 new_RegExp
                   (''^'' @ [backslash] @ ''s*[@]?'' @ name' @ ''[:,]?''
                      @ [backslash] @ ''s*(?:'' @ pattern @ '')'')
                   modifiers)
      in (warnings, newRegex))"

section \<open>Properties of the listener helpers\<close>

lemma last_listeners_listen:
  "last (listeners (listen m opts cb r)) = \<lparr>matcher = m, options = opts, callback = cb\<rparr>"
  by (simp add: listen_def)

lemma instanceof_LeaveMessage_iff:
  "instanceof_LeaveMessage msg \<longleftrightarrow> (\<exists>u i. msg = LeaveMessage u i)"
  by (cases msg) auto

lemma instanceof_TopicMessage_iff:
  "instanceof_TopicMessage msg \<longleftrightarrow> (\<exists>u i. msg = TopicMessage u i)"
  by (cases msg) auto

text \<open>
  C2: the listener that \<^verbatim>\<open>leave\<close> registers has a matcher that returns true exactly
  on the Leave messages, and the listener that \<^verbatim>\<open>topic\<close> registers has one that returns
  true exactly on the Topic messages.  Each helper appends this one listener, with the
  options and the callback it was given, to the registry.
\<close>

theorem leave_topic_match_their_own_variant:
  "matcher (last (listeners (leave opts cb r))) msg
     = Inr (JBool (\<exists>u i. msg = LeaveMessage u i))
   \<and> matcher (last (listeners (topic opts cb r))) msg
     = Inr (JBool (\<exists>u i. msg = TopicMessage u i))
   \<and> listeners (leave opts cb r)
     = listeners r @ [\<lparr>matcher = \<lambda>msg. Inr (JBool (instanceof_LeaveMessage msg)),
                        options = opts, callback = cb\<rparr>]
   \<and> listeners (topic opts cb r)
     = listeners r @ [\<lparr>matcher = \<lambda>msg. Inr (JBool (instanceof_TopicMessage msg)),
                        options = opts, callback = cb\<rparr>]"
  by (simp add: leave_def topic_def listen_def instanceof_LeaveMessage_iff
        instanceof_TopicMessage_iff)

text \<open>
  C9: the listener that \<^verbatim>\<open>catchAll\<close> registers matches exactly the CatchAll messages, and
  on a response to a CatchAll message its callback calls the user's callback with the
  same response whose message is the wrapped message, in both call forms (with
  options, and with the callback alone).  On the CatchAll message that the dispatcher
  builds from a message, the user's callback sees that original message.
\<close>

theorem catchAll_callback_sees_inner_message:
  "callback (last (listeners (catchAll opts (Some (Function f)) r)))
       (new_Response (CatchAllMessage u i m) v) hp
     = f \<lparr>message = Some m, match = v\<rparr> hp
   \<and> callback (last (listeners (catchAll (Function f) None r)))
       (new_Response (CatchAllMessage u i m) v) hp
     = f \<lparr>message = Some m, match = v\<rparr> hp
   \<and> callback (last (listeners (catchAll opts (Some (Function f)) r)))
       (new_Response (fst (new_CatchAllMessage msg hp0)) v) hp
     = f \<lparr>message = Some msg, match = v\<rparr> hp
   \<and> matcher (last (listeners (catchAll opts cb r))) msg'
     = Inr (JBool (instanceof_CatchAllMessage msg'))"
  by (simp add: catchAll_def last_listeners_listen new_Response_def new_CatchAllMessage_def
        Let_def split: option.split)

section \<open>Properties of the error channel\<close>

lemma forEach_errorHandler_throws:
  assumes "\<forall>h' \<in> set hs1. \<forall>err res hp. snd (h' err res hp) = None"
    and "\<forall>hp. snd (h err res hp) \<noteq> None"
  shows "fst (forEach_errorHandler ThisUndefined i (hs1 @ h # hs2) err res st) =
           Throw (TypeError ''Cannot read property logger of undefined'')
     \<and> trace (snd (forEach_errorHandler ThisUndefined i (hs1 @ h # hs2) err res st)) =
           trace st @ map (\<lambda>k. ErrorHandlerCalled k err res) [i..<Suc (i + length hs1)]"
  using assms(1)
proof (induction hs1 arbitrary: i st)
  case Nil
  obtain hp thrown where h: "h err res (heap (emit_event (ErrorHandlerCalled i err res) st)) = (hp, thrown)"
    by (cases "h err res (heap (emit_event (ErrorHandlerCalled i err res) st))")
  with assms(2) obtain e where "thrown = Some e" by (metis not_None_eq snd_conv)
  with h show ?case by (simp add: Let_def emit_event_def)
next
  case (Cons h' hs1)
  obtain hp thrown where h: "h' err res (heap (emit_event (ErrorHandlerCalled i err res) st)) = (hp, thrown)"
    by (cases "h' err res (heap (emit_event (ErrorHandlerCalled i err res) st))")
  moreover have "thrown = None" using Cons.prems h by (metis list.set_intros(1) snd_conv)
  moreover have "[i..<Suc (i + length (h' # hs1))] = i # [Suc i..<Suc (Suc i + length hs1)]"
    using upt_conv_Cons[of i "Suc (i + length (h' # hs1))"] by simp
  ultimately show ?case
    using Cons.IH[of "Suc i" "(emit_event (ErrorHandlerCalled i err res) st)\<lparr>heap := hp\<rparr>"] Cons.prems
    by (simp add: Let_def emit_event_def)
qed

text \<open>
  The first handler that throws ends \<^verbatim>\<open>invokeErrorHandlers\<close> with a TypeError: the
  handlers after it are not called and nothing but the error itself has been logged.
\<close>

lemma invokeErrorHandlers_handler_throws:
  assumes "errorHandlers r = hs1 @ h # hs2"
    and "\<forall>h' \<in> set hs1. \<forall>err res hp. snd (h' err res hp) = None"
    and "\<forall>hp. snd (h err res hp) \<noteq> None"
    and "stack err = Inr s"
  shows "fst (invokeErrorHandlers r err res st) =
           Throw (TypeError ''Cannot read property logger of undefined'')
     \<and> trace (snd (invokeErrorHandlers r err res st)) =
           trace st @ LoggerError s #
             map (\<lambda>k. ErrorHandlerCalled k err res) [0..<Suc (length hs1)]"
  using forEach_errorHandler_throws[where ?hs1.0 = hs1 and h = h and err = err and res = res
          and i = 0 and ?hs2.0 = hs2 and st = "emit_event (LoggerError s) st"]
    assms(2,3)
  by (simp add: invokeErrorHandlers_def assms(1,4) emit_event_def)

text \<open>
  An error without a \<^verbatim>\<open>stack\<close> to read ends \<^verbatim>\<open>invokeErrorHandlers\<close> before anything is
  logged and before any handler is called.
\<close>

lemma invokeErrorHandlers_no_stack:
  "invokeErrorHandlers r ThrownUndefined res st =
     (Throw (TypeError ''Cannot read property stack of undefined''), st)"
  "invokeErrorHandlers r ThrownNull res st =
     (Throw (TypeError ''Cannot read property stack of null''), st)"
  by (simp_all add: invokeErrorHandlers_def)

text \<open>
  C1, at two registered handlers of which the first throws: the first handler is
  called, the catch block itself throws a TypeError (its \<^verbatim>\<open>this\<close> is undefined), the
  TypeError leaves \<^verbatim>\<open>invokeErrorHandlers\<close>, the second handler is never called and the
  handler's exception is not logged.
\<close>

theorem invokeErrorHandlers_throwing_handler_escapes:
  "invokeErrorHandlers
     \<lparr>name = ''Webby'', robot_alias = None, listeners = [],
      errorHandlers = [\<lambda>err res hp. (hp, Some (Error ''handler failed'')),
                       \<lambda>err res hp. (hp, None)],
      listener_middleware = [], receive_middleware = []\<rparr>
     (Error ''boom'') None \<lparr>heap = \<lambda>i. False, trace = []\<rparr>
   = (Throw (TypeError ''Cannot read property logger of undefined''),
      \<lparr>heap = \<lambda>i. False,
       trace = [LoggerError ''Error: boom'', ErrorHandlerCalled 0 (Error ''boom'') None]\<rparr>)"
  by (simp add: invokeErrorHandlers_def emit_event_def)



declare receive.simps [simp del] processListeners.simps [simp del]

section \<open>What each step writes to the trace\<close>

lemma project_emit_event [simp]: "project g (emit_event e st) = project g st @ g e"
  by (simp add: project_def emit_event_def)

lemma project_heap_update [simp]: "project g (st\<lparr>heap := hp\<rparr>) = project g st"
  by (simp add: project_def)

lemma project_call_done [simp]:
  "project g (snd (call_done cb st)) =
     project g st @ (case cb of None \<Rightarrow> [] | Some f \<Rightarrow> g (DoneCalled f))"
  by (cases cb) simp_all

lemma fst_call_done [simp]: "fst (call_done cb st) = Return () \<longleftrightarrow> cb \<noteq> None"
  by (cases cb) simp_all

lemma project_forEach_errorHandler:
  "error_silent g \<Longrightarrow> project g (snd (forEach_errorHandler this i hs err res st)) = project g st"
  by (induction hs arbitrary: i st)
     (auto simp: Let_def error_silent_def split: prod.splits option.splits sum.splits)

lemma project_emit_error:
  assumes g: "error_silent g" and em: "emit_error r err res st = (x, st')"
  shows "project g st' = project g st"
proof (cases "stack err")
  case (Inl e)
  with em show ?thesis by (simp add: emit_error_def invokeErrorHandlers_def)
next
  case (Inr s)
  with em have "st' = snd (forEach_errorHandler ThisUndefined 0 (errorHandlers r) err res
                             (emit_event (LoggerError s) st))"
    by (simp add: emit_error_def invokeErrorHandlers_def)
  then have "project g st' = project g (emit_event (LoggerError s) st)"
    using project_forEach_errorHandler[OF g] by simp
  then show ?thesis using g by (simp add: error_silent_def)
qed

lemma project_execute:
  "error_silent g \<Longrightarrow> execute r mws ctx st = (x, st') \<Longrightarrow> project g st' = project g st"
  by (induction mws arbitrary: st)
     (auto simp: Let_def dest: project_emit_error split: prod.splits mw_action.splits result.splits)

lemma project_Listener_call:
  "search_silent g \<Longrightarrow> Listener_call r i l msg st = (x, st') \<Longrightarrow> project g st' = project g st"
  by (auto simp: Listener_call_def Let_def search_silent_def dest: project_execute
        split: prod.splits sum.splits option.splits result.splits chain.splits if_splits)

lemma search_silent_error_silent: "search_silent g \<Longrightarrow> error_silent g"
  by (simp add: search_silent_def)

lemma project_iterator:
  assumes g: "search_silent g" and it: "iterator r msg i l a st = (x, st')"
  shows "project g st' = project g st"
proof -
  obtain y st1 where lc: "Listener_call r i l msg st = (y, st1)"
    by (cases "Listener_call r i l msg st")
  have p1: "project g st1 = project g st" by (rule project_Listener_call[OF g lc])
  show ?thesis
  proof (cases y)
    case (Return b)
    with lc it p1 show ?thesis by (simp add: iterator_def)
  next
    case (Throw e)
    obtain z st2 where em: "emit_error r e (Some (new_Response msg (JArray []))) st1 = (z, st2)"
      by (cases "emit_error r e (Some (new_Response msg (JArray []))) st1")
    have "project g st2 = project g st1"
      by (rule project_emit_error[OF search_silent_error_silent[OF g] em])
    with Throw lc it p1 em show ?thesis by (cases z) (auto simp: iterator_def)
  next
    case NoReturn
    with lc it p1 show ?thesis by (simp add: iterator_def)
  qed
qed

lemma project_detectSeries:
  "search_silent g \<Longrightarrow> detectSeries r msg i ls a st = (x, st') \<Longrightarrow> project g st' = project g st"
  by (induction ls arbitrary: i a st)
     (auto dest: project_iterator split: prod.splits result.splits if_splits)

lemma processListeners_CatchAll:
  assumes "instanceof_CatchAllMessage msg" and "message (response ctx) = Some msg"
  shows "processListeners r ctx cb st =
     (case detectSeries r msg 0 (listeners r) False st of
        (Return a, st1) \<Rightarrow> if cb \<noteq> None then call_done cb st1 else (Return (), st1)
      | (Throw e, st1) \<Rightarrow> (Throw e, st1)
      | (NoReturn, st1) \<Rightarrow> (NoReturn, st1))"
  using assms by (simp add: processListeners.simps split: prod.splits result.splits)

text \<open>The fallback step of \<^verbatim>\<open>processListeners\<close>, and its other exit.\<close>

lemma processListeners_fallback:
  assumes "\<not> instanceof_CatchAllMessage msg" and "message (response ctx) = Some msg"
    and "detectSeries r msg 0 (listeners r) False st = (Return False, st1)"
  shows "processListeners r ctx cb st =
     receive r (fst (new_CatchAllMessage msg (heap st1))) cb
       ((emit_event fallback st1)\<lparr>heap := snd (new_CatchAllMessage msg (heap st1))\<rparr>)"
  using assms
  by (simp add: processListeners.simps fallback_def Let_def emit_event_def split: prod.splits)

lemma processListeners_no_fallback:
  assumes "message (response ctx) = Some msg"
    and "detectSeries r msg 0 (listeners r) False st = (Return a, st1)"
    and "instanceof_CatchAllMessage msg \<or> a"
  shows "processListeners r ctx cb st =
     (case cb of None \<Rightarrow> (Return (), st1) | Some f \<Rightarrow> (Return (), emit_event (DoneCalled f) st1))"
  using assms by (cases cb) (auto simp add: processListeners.simps)

lemma processListeners_stops:
  assumes "message (response ctx) = Some msg"
    and "detectSeries r msg 0 (listeners r) False st = (x, st1)" and "\<forall>a. x \<noteq> Return a"
  shows "processListeners r ctx cb st = (case x of Throw e \<Rightarrow> (Throw e, st1) | _ \<Rightarrow> (NoReturn, st1))"
  using assms by (cases x) (auto simp add: processListeners.simps)

lemma receive_unfold:
  "receive r msg cb st =
     (case execute r (receive_middleware r)
             \<lparr>ctx_listener = None, response = new_Response msg JUndefined\<rparr> st of
        (Return Completed, st1) \<Rightarrow>
          processListeners r \<lparr>ctx_listener = None, response = new_Response msg JUndefined\<rparr> cb st1
      | (Return Aborted, st1) \<Rightarrow> call_done cb st1
      | (Throw e, st1) \<Rightarrow> (Throw e, st1)
      | (NoReturn, st1) \<Rightarrow> (NoReturn, st1))"
  by (simp add: receive.simps Let_def)

lemma instanceof_new_CatchAllMessage [simp]:
  "instanceof_CatchAllMessage (fst (new_CatchAllMessage msg hp))"
  by (simp add: new_CatchAllMessage_def Let_def)

text \<open>
  What a pass adds to a view that ignores the search: at most the fallback line, and
  then the call of the completion callback when the pass returns.
\<close>

lemma processListeners_events:
  assumes g: "search_silent g" and m: "message (response ctx) = Some msg"
    and rec: "\<And>msg' st'. instanceof_CatchAllMessage msg' \<Longrightarrow>
       project g (snd (receive r msg' cb st')) =
         project g st' @ (if fst (receive r msg' cb st') = Return () then
            (case cb of None \<Rightarrow> [] | Some f \<Rightarrow> g (DoneCalled f)) else [])"
  shows "\<exists>fb. (fb = [] \<or> fb = [fallback] \<and> \<not> instanceof_CatchAllMessage msg) \<and>
     project g (snd (processListeners r ctx cb st)) =
       project g st @ concat (map g fb) @
         (if fst (processListeners r ctx cb st) = Return () then
            (case cb of None \<Rightarrow> [] | Some f \<Rightarrow> g (DoneCalled f)) else [])"
proof -
  obtain x st1 where ds: "detectSeries r msg 0 (listeners r) False st = (x, st1)"
    by (cases "detectSeries r msg 0 (listeners r) False st")
  have p: "project g st1 = project g st" using g ds by (rule project_detectSeries)
  show ?thesis
  proof (cases x)
    case (Return a)
    show ?thesis
    proof (cases "\<not> instanceof_CatchAllMessage msg \<and> \<not> a")
      case True
      let ?m = "fst (new_CatchAllMessage msg (heap st1))"
      let ?st = "(emit_event fallback st1)\<lparr>heap := snd (new_CatchAllMessage msg (heap st1))\<rparr>"
      have eq: "processListeners r ctx cb st = receive r ?m cb ?st"
        using processListeners_fallback[OF _ m, of r st st1 cb] True Return ds by simp
      have "project g (snd (receive r ?m cb ?st)) =
          project g ?st @ (if fst (receive r ?m cb ?st) = Return () then
            (case cb of None \<Rightarrow> [] | Some f \<Rightarrow> g (DoneCalled f)) else [])"
        by (rule rec) simp
      moreover have "project g ?st = project g st @ g fallback"
        using p by simp
      ultimately have "project g (snd (processListeners r ctx cb st)) =
          project g st @ concat (map g [fallback]) @
          (if fst (processListeners r ctx cb st) = Return () then
            (case cb of None \<Rightarrow> [] | Some f \<Rightarrow> g (DoneCalled f)) else [])"
        using eq by simp
      then show ?thesis using True by blast
    next
      case False
      then have "processListeners r ctx cb st =
          (case cb of None \<Rightarrow> (Return (), st1) | Some f \<Rightarrow> (Return (), emit_event (DoneCalled f) st1))"
        using processListeners_no_fallback[OF m, of r st a st1 cb] Return ds by auto
      then show ?thesis using p by (intro exI[of _ "[]"]) (simp split: option.splits)
    qed
  next
    case (Throw e)
    with ds m have "processListeners r ctx cb st = (Throw e, st1)"
      by (simp add: processListeners.simps)
    then show ?thesis using p by (intro exI[of _ "[]"]) simp
  next
    case NoReturn
    with ds m have "processListeners r ctx cb st = (NoReturn, st1)"
      by (simp add: processListeners.simps)
    then show ?thesis using p by (intro exI[of _ "[]"]) simp
  qed
qed

lemma receive_events_aux:
  assumes g: "search_silent g"
    and rec: "\<And>msg' st'. instanceof_CatchAllMessage msg' \<Longrightarrow>
       project g (snd (receive r msg' cb st')) =
         project g st' @ (if fst (receive r msg' cb st') = Return () then
            (case cb of None \<Rightarrow> [] | Some f \<Rightarrow> g (DoneCalled f)) else [])"
  shows "\<exists>fb. (fb = [] \<or> fb = [fallback] \<and> \<not> instanceof_CatchAllMessage msg) \<and>
     project g (snd (receive r msg cb st)) =
       project g st @ concat (map g fb) @
         (if fst (receive r msg cb st) = Return () then
            (case cb of None \<Rightarrow> [] | Some f \<Rightarrow> g (DoneCalled f)) else [])"
proof -
  let ?ctx = "\<lparr>ctx_listener = None, response = new_Response msg JUndefined\<rparr>"
  have m: "message (response ?ctx) = Some msg" by (simp add: new_Response_def)
  obtain x st1 where ex: "execute r (receive_middleware r) ?ctx st = (x, st1)"
    by (cases "execute r (receive_middleware r) ?ctx st")
  have sg: "error_silent g" using g by (simp add: search_silent_def)
  have p: "project g st1 = project g st" using sg ex by (rule project_execute)
  show ?thesis
  proof (cases x)
    case (Return c)
    show ?thesis
    proof (cases c)
      case Completed
      with Return ex have "receive r msg cb st = processListeners r ?ctx cb st1"
        by (simp add: receive_unfold)
      then show ?thesis using processListeners_events[OF g m rec, of st1] p by simp
    next
      case Aborted
      with Return ex have "receive r msg cb st = call_done cb st1"
        by (simp add: receive_unfold)
      then show ?thesis using p by (intro exI[of _ "[]"]) (cases cb; simp)
    qed
  next
    case (Throw e)
    with ex have "receive r msg cb st = (Throw e, st1)" by (simp add: receive_unfold)
    then show ?thesis using p by (intro exI[of _ "[]"]) simp
  next
    case NoReturn
    with ex have "receive r msg cb st = (NoReturn, st1)" by (simp add: receive_unfold)
    then show ?thesis using p by (intro exI[of _ "[]"]) simp
  qed
qed

lemma receive_CatchAll_events:
  assumes g: "search_silent g" and c: "instanceof_CatchAllMessage msg"
  shows "project g (snd (receive r msg cb st)) =
     project g st @ (if fst (receive r msg cb st) = Return () then
        (case cb of None \<Rightarrow> [] | Some f \<Rightarrow> g (DoneCalled f)) else [])"
proof -
  let ?ctx = "\<lparr>ctx_listener = None, response = new_Response msg JUndefined\<rparr>"
  have m: "message (response ?ctx) = Some msg" by (simp add: new_Response_def)
  obtain x st1 where ex: "execute r (receive_middleware r) ?ctx st = (x, st1)"
    by (cases "execute r (receive_middleware r) ?ctx st")
  have sg: "error_silent g" using g by (simp add: search_silent_def)
  have p: "project g st1 = project g st" using sg ex by (rule project_execute)
  obtain y st2 where ds: "detectSeries r msg 0 (listeners r) False st1 = (y, st2)"
    by (cases "detectSeries r msg 0 (listeners r) False st1")
  have q: "project g st2 = project g st1" using g ds by (rule project_detectSeries)
  show ?thesis
    using ex ds p q
    by (cases x; cases y)
       (auto simp: receive_unfold processListeners_CatchAll[OF c m] split: chain.splits)
qed

lemma receive_events:
  assumes g: "search_silent g"
  shows "\<exists>fb. (fb = [] \<or> fb = [fallback] \<and> \<not> instanceof_CatchAllMessage msg) \<and>
     project g (snd (receive r msg cb st)) =
       project g st @ concat (map g fb) @
         (if fst (receive r msg cb st) = Return () then
            (case cb of None \<Rightarrow> [] | Some f \<Rightarrow> g (DoneCalled f)) else [])"
  by (rule receive_events_aux[OF g]) (rule receive_CatchAll_events[OF g])

section \<open>When a pass returns\<close>

lemma has_stack_iff: "has_stack e \<longleftrightarrow> (\<exists>s. stack e = Inr s)"
  by (cases e) simp_all

lemma forEach_errorHandler_returns:
  assumes "\<forall>h \<in> set hs. \<forall>err res hp. snd (h err res hp) = None"
  shows "fst (forEach_errorHandler this i hs err res st) = Return ()"
  using assms
proof (induction hs arbitrary: i st)
  case Nil
  then show ?case by simp
next
  case (Cons h hs)
  obtain hp thrown where h: "h err res (heap (emit_event (ErrorHandlerCalled i err res) st)) = (hp, thrown)"
    by (cases "h err res (heap (emit_event (ErrorHandlerCalled i err res) st))")
  moreover have "thrown = None" using Cons.prems h by (metis list.set_intros(1) snd_conv)
  ultimately show ?case using Cons by (simp add: Let_def)
qed

lemma emit_error_returns:
  "handlers_return r \<Longrightarrow> has_stack err \<Longrightarrow> fst (emit_error r err res st) = Return ()"
  by (auto simp: emit_error_def invokeErrorHandlers_def handlers_return_def has_stack_iff
        forEach_errorHandler_returns)

lemma emit_error_returns':
  "handlers_return r \<Longrightarrow> has_stack err \<Longrightarrow> emit_error r err res st = (x, st') \<Longrightarrow> x = Return ()"
  using emit_error_returns[of r err res st] by simp

text \<open>
  A middleware chain reaches one of its two continuations when no error handler
  throws and every middleware of it calls \<^verbatim>\<open>next\<close> or \<^verbatim>\<open>done\<close> or throws something with
  a \<^verbatim>\<open>stack\<close>.
\<close>

lemma execute_returns:
  assumes "handlers_return r" and "\<forall>mw \<in> set mws. calls_next_or_done mw"
    and "\<forall>mw \<in> set mws. \<forall>ctx hp e. snd (mw ctx hp) = Throws e \<longrightarrow> has_stack e"
  shows "\<exists>c. fst (execute r mws ctx st) = Return c"
  using assms(2,3)
proof (induction mws arbitrary: st)
  case Nil
  then show ?case by simp
next
  case (Cons mw mws)
  obtain hp action where mw: "mw ctx (heap st) = (hp, action)" by (cases "mw ctx (heap st)")
  have n: "action \<noteq> CallsNeither"
    using Cons.prems(1) mw by (metis calls_next_or_done_def list.set_intros(1) snd_conv)
  have s: "\<And>e. action = Throws e \<Longrightarrow> has_stack e"
    using Cons.prems(2) mw by (metis list.set_intros(1) snd_conv)
  have ih: "\<And>st. \<exists>c. fst (execute r mws ctx st) = Return c"
    using Cons.IH Cons.prems by simp
  show ?case
  proof (cases action)
    case CallsNext
    with mw ih[of "st\<lparr>heap := hp\<rparr>"] show ?thesis by (simp add: Let_def)
  next
    case CallsDone
    with mw show ?thesis by (simp add: Let_def)
  next
    case (Throws e)
    obtain z st2 where em: "emit_error r e (Some (response ctx)) (st\<lparr>heap := hp\<rparr>) = (z, st2)"
      by (cases "emit_error r e (Some (response ctx)) (st\<lparr>heap := hp\<rparr>)")
    from emit_error_returns'[OF assms(1) s[OF Throws] em] have "z = Return ()" .
    with Throws mw em show ?thesis by (simp add: Let_def)
  next
    case CallsNeither
    with n show ?thesis by simp
  qed
qed

lemma execute_returns':
  assumes "handlers_return r" and "\<forall>mw \<in> set mws. calls_next_or_done mw"
    and "\<forall>mw \<in> set mws. \<forall>ctx hp e. snd (mw ctx hp) = Throws e \<longrightarrow> has_stack e"
    and "execute r mws ctx st = (x, st')"
  shows "x = Return Completed \<or> x = Return Aborted"
  using execute_returns[OF assms(1,2,3), of ctx st] assms(4) by (metis chain.exhaust fst_conv)

lemma listener_middleware_contract:
  assumes "middleware_contract r" and "thrown_have_stack r"
  shows "\<forall>mw \<in> set (listener_middleware r). calls_next_or_done mw"
    and "\<forall>mw \<in> set (listener_middleware r). \<forall>ctx hp e. snd (mw ctx hp) = Throws e \<longrightarrow> has_stack e"
  using assms unfolding middleware_contract_def thrown_have_stack_def by blast+

lemma receive_middleware_contract:
  assumes "middleware_contract r" and "thrown_have_stack r"
  shows "\<forall>mw \<in> set (receive_middleware r). calls_next_or_done mw"
    and "\<forall>mw \<in> set (receive_middleware r). \<forall>ctx hp e. snd (mw ctx hp) = Throws e \<longrightarrow> has_stack e"
  using assms unfolding middleware_contract_def thrown_have_stack_def by blast+

text \<open>
  A listener of the registry returns, or throws something with a \<^verbatim>\<open>stack\<close>; then the
  iterator returns.
\<close>

lemma Listener_call_result:
  assumes hr: "handlers_return r" and mc: "middleware_contract r" and ts: "thrown_have_stack r"
    and l: "l \<in> set (listeners r)" and lc: "Listener_call r i l msg st = (x, st')"
  shows "(\<exists>b. x = Return b) \<or> (\<exists>e. x = Throw e \<and> has_stack e)"
proof (cases "matcher l msg")
  case (Inl e)
  then have "has_stack e" using ts l by (simp add: thrown_have_stack_def)
  with Inl lc show ?thesis by (auto simp: Listener_call_def Let_def)
next
  case (Inr v)
  show ?thesis
  proof (cases "truthy v")
    case False
    with Inr lc show ?thesis by (auto simp: Listener_call_def Let_def)
  next
    case True
    let ?ctx = "\<lparr>ctx_listener = Some i, response = new_Response msg v\<rparr>"
    obtain y st1 where ex: "execute r (listener_middleware r) ?ctx (emit_event (MatcherCalled i msg) st) = (y, st1)"
      by (cases "execute r (listener_middleware r) ?ctx (emit_event (MatcherCalled i msg) st)")
    from execute_returns'[OF hr listener_middleware_contract[OF mc ts] ex]
    have y: "y = Return Completed \<or> y = Return Aborted" .
    obtain hp thrown where cb:
      "callback l (new_Response msg v) (heap (emit_event (CallbackCalled i (new_Response msg v)) st1)) = (hp, thrown)"
      by (cases "callback l (new_Response msg v) (heap (emit_event (CallbackCalled i (new_Response msg v)) st1))")
    have "\<And>e. thrown = Some e \<Longrightarrow> has_stack e"
      using ts l cb unfolding thrown_have_stack_def by (metis snd_conv)
    with y Inr True ex cb lc show ?thesis
      by (cases thrown) (auto simp: Listener_call_def Let_def)
  qed
qed

lemma iterator_returns:
  assumes hr: "handlers_return r" and mc: "middleware_contract r" and ts: "thrown_have_stack r"
    and l: "l \<in> set (listeners r)"
  shows "\<exists>x. fst (iterator r msg i l a st) = Return x"
proof -
  obtain y st1 where lc: "Listener_call r i l msg st = (y, st1)"
    by (cases "Listener_call r i l msg st")
  from Listener_call_result[OF hr mc ts l lc] show ?thesis
  proof
    assume "\<exists>b. y = Return b"
    with lc show ?thesis by (auto simp: iterator_def)
  next
    assume "\<exists>e. y = Throw e \<and> has_stack e"
    then obtain e where e: "y = Throw e" "has_stack e" by blast
    obtain z st2 where em: "emit_error r e (Some (new_Response msg (JArray []))) st1 = (z, st2)"
      by (cases "emit_error r e (Some (new_Response msg (JArray []))) st1")
    from emit_error_returns'[OF hr e(2) em] have "z = Return ()" .
    with e lc em have "iterator r msg i l a st = (Return (False, a), st2)"
      by (simp add: iterator_def)
    then show ?thesis by auto
  qed
qed

lemma detectSeries_returns:
  assumes hr: "handlers_return r" and mc: "middleware_contract r" and ts: "thrown_have_stack r"
  shows "set ls \<subseteq> set (listeners r) \<Longrightarrow> \<exists>x. fst (detectSeries r msg i ls a st) = Return x"
proof (induction ls arbitrary: i a st)
  case Nil
  then show ?case by simp
next
  case (Cons l ls)
  then have l: "l \<in> set (listeners r)" and ls: "set ls \<subseteq> set (listeners r)" by simp_all
  obtain x st1 where it: "iterator r msg i l a st = (x, st1)" by (cases "iterator r msg i l a st")
  then obtain t a' where "x = Return (t, a')"
    using iterator_returns[OF hr mc ts l, of msg i a st] by auto
  then show ?case using it Cons.IH[OF ls] by simp
qed

text \<open>
  A pass returns when no error handler throws, nothing throws \<^verbatim>\<open>undefined\<close> or \<^verbatim>\<open>null\<close>,
  every middleware keeps its contract, and a completion callback is given or the
  receive middleware only passes on.
\<close>

lemma processListeners_CatchAll_returns:
  assumes "handlers_return r" and "middleware_contract r" and "thrown_have_stack r"
    and "instanceof_CatchAllMessage msg" and "message (response ctx) = Some msg"
  shows "fst (processListeners r ctx cb st) = Return ()"
proof -
  from detectSeries_returns[OF assms(1,2,3), of "listeners r" msg 0 False st]
  show ?thesis
    by (cases cb) (auto simp: processListeners_CatchAll[OF assms(4,5)] split: prod.splits)
qed

lemma execute_passes_on:
  "\<forall>mw \<in> set mws. passes_on mw \<Longrightarrow> execute r mws ctx st = (Return Completed, st)"
  by (induction mws) (simp_all add: passes_on_def)

lemma receive_CatchAll_returns:
  assumes "handlers_return r" and "middleware_contract r" and "thrown_have_stack r"
    and "instanceof_CatchAllMessage msg"
    and cb: "cb \<noteq> None \<or> (\<forall>mw \<in> set (receive_middleware r). passes_on mw)"
  shows "fst (receive r msg cb st) = Return ()"
proof -
  let ?ctx = "\<lparr>ctx_listener = None, response = new_Response msg JUndefined\<rparr>"
  have m: "message (response ?ctx) = Some msg" by (simp add: new_Response_def)
  obtain x st1 where ex: "execute r (receive_middleware r) ?ctx st = (x, st1)"
    by (cases "execute r (receive_middleware r) ?ctx st")
  from execute_returns'[OF assms(1) receive_middleware_contract[OF assms(2,3)] ex]
  have x: "x = Return Completed \<or> x = Return Aborted" .
  have "cb = None \<Longrightarrow> x = Return Completed"
    using cb ex execute_passes_on[of "receive_middleware r" r ?ctx st] by auto
  with x show ?thesis
    using ex processListeners_CatchAll_returns[OF assms(1,2,3,4) m, of cb st1]
    by (cases cb) (auto simp: receive_unfold)
qed

lemma processListeners_returns:
  assumes "handlers_return r" and "middleware_contract r" and "thrown_have_stack r"
    and m: "message (response ctx) = Some msg"
    and cb: "cb \<noteq> None \<or> (\<forall>mw \<in> set (receive_middleware r). passes_on mw)"
  shows "fst (processListeners r ctx cb st) = Return ()"
proof -
  from detectSeries_returns[OF assms(1,2,3), of "listeners r" msg 0 False st]
  obtain a st1 where ds: "detectSeries r msg 0 (listeners r) False st = (Return a, st1)"
    by (cases "detectSeries r msg 0 (listeners r) False st") auto
  show ?thesis
  proof (cases "\<not> instanceof_CatchAllMessage msg \<and> \<not> a")
    case True
    then show ?thesis
      using processListeners_fallback[OF _ m, of r st st1 cb] ds
        receive_CatchAll_returns[OF assms(1,2,3) _ cb] by simp
  next
    case False
    then show ?thesis using processListeners_no_fallback[OF m ds, of cb] by (cases cb) auto
  qed
qed

lemma receive_returns:
  assumes "handlers_return r" and "middleware_contract r" and "thrown_have_stack r"
    and cb: "cb \<noteq> None \<or> (\<forall>mw \<in> set (receive_middleware r). passes_on mw)"
  shows "fst (receive r msg cb st) = Return ()"
proof -
  let ?ctx = "\<lparr>ctx_listener = None, response = new_Response msg JUndefined\<rparr>"
  have m: "message (response ?ctx) = Some msg" by (simp add: new_Response_def)
  obtain x st1 where ex: "execute r (receive_middleware r) ?ctx st = (x, st1)"
    by (cases "execute r (receive_middleware r) ?ctx st")
  from execute_returns'[OF assms(1) receive_middleware_contract[OF assms(2,3)] ex]
  have x: "x = Return Completed \<or> x = Return Aborted" .
  have "cb = None \<Longrightarrow> x = Return Completed"
    using cb ex execute_passes_on[of "receive_middleware r" r ?ctx st] by auto
  with x show ?thesis
    using ex processListeners_returns[OF assms(1,2,3) m cb, of st1]
    by (cases cb) (auto simp: receive_unfold)
qed


section \<open>The completion callback and the catch-all fallback\<close>

lemma search_silent_done_call [simp]: "search_silent done_call"
  by (simp add: search_silent_def error_silent_def)

lemma search_silent_debug_line [simp]: "search_silent debug_line"
  by (simp add: search_silent_def error_silent_def)

lemma done_call_fallback [simp]: "done_call fallback = []"
  by (simp add: fallback_def)

text \<open>
  A call of \<^verbatim>\<open>receive\<close> with a completion callback calls that callback exactly once
  when the pass returns, as its last step, and never when the pass does not return.
\<close>

lemma receive_done_calls:
  "project done_call (snd (receive r msg (Some f) st)) =
     project done_call st @ (if fst (receive r msg (Some f) st) = Return () then [f] else [])"
proof -
  obtain fb where fb: "fb = [] \<or> fb = [fallback] \<and> \<not> instanceof_CatchAllMessage msg"
    and ev: "project done_call (snd (receive r msg (Some f) st)) =
       project done_call st @ concat (map done_call fb) @
         (if fst (receive r msg (Some f) st) = Return () then
            (case Some f of None \<Rightarrow> [] | Some f \<Rightarrow> done_call (DoneCalled f)) else [])"
    using receive_events[of done_call msg r "Some f" st] by auto
  have "concat (map done_call fb) = []" using fb by auto
  with ev show ?thesis by simp
qed

text \<open>
  The pass returns, and so calls the callback exactly once, for every message and every
  list of listeners when no registered error handler throws, nothing throws
  \<^verbatim>\<open>undefined\<close> or \<^verbatim>\<open>null\<close>, and every middleware keeps its contract.
\<close>

lemma receive_calls_done_once_under_contract:
  assumes "handlers_return r" and "middleware_contract r" and "thrown_have_stack r"
  shows "fst (receive r msg (Some f) st) = Return ()
     \<and> project done_call (snd (receive r msg (Some f) st)) = project done_call st @ [f]"
  using receive_returns[OF assms, of "Some f" msg st] receive_done_calls[of r msg f st]
  by simp

lemma receive_calls_done_once_example:
  "project done_call (snd (receive
      \<lparr>name = ''Webby'', robot_alias = None,
       listeners = [\<lparr>matcher = \<lambda>m. Inl (Error ''bad matcher''), options = Options [],
                     callback = \<lambda>res hp. (hp, None)\<rparr>,
                    \<lparr>matcher = \<lambda>m. Inr (JBool True), options = Options [],
                     callback = \<lambda>res hp. (hp, Some (Error ''bad callback''))\<rparr>],
       errorHandlers = [\<lambda>err res hp. (hp, None)],
       listener_middleware = [\<lambda>ctx hp. (hp, CallsNext)],
       receive_middleware = [\<lambda>ctx hp. (hp, CallsNext)]\<rparr>
      (TextMessage ''alice'' 0 ''hello'') (Some ''onSettled'') \<lparr>heap = \<lambda>i. False, trace = []\<rparr>))
     = [''onSettled'']"
proof -
  let ?r = "\<lparr>name = ''Webby'', robot_alias = None,
       listeners = [\<lparr>matcher = \<lambda>m. Inl (Error ''bad matcher''), options = Options [],
                     callback = \<lambda>res hp. (hp, None)\<rparr>,
                    \<lparr>matcher = \<lambda>m. Inr (JBool True), options = Options [],
                     callback = \<lambda>res hp. (hp, Some (Error ''bad callback''))\<rparr>],
       errorHandlers = [\<lambda>err res hp. (hp, None)],
       listener_middleware = [\<lambda>ctx hp. (hp, CallsNext)],
       receive_middleware = [\<lambda>ctx hp. (hp, CallsNext)]\<rparr>"
  have h: "handlers_return ?r" by (simp add: handlers_return_def)
  have c: "middleware_contract ?r" by (simp add: middleware_contract_def calls_next_or_done_def)
  have t: "thrown_have_stack ?r" by (simp add: thrown_have_stack_def)
  from receive_calls_done_once_under_contract[OF h c t, of "TextMessage ''alice'' 0 ''hello''"
         "''onSettled''" "\<lparr>heap = \<lambda>i. False, trace = []\<rparr>"]
  show ?thesis by (simp add: project_def)
qed

text \<open>
  C5, at a listener that throws: with a registered error handler that throws, the
  TypeError of \<^verbatim>\<open>invokeErrorHandlers\<close> leaves the catch block of \<^verbatim>\<open>processListeners\<close>, the
  pass ends there and the completion callback is never called.  The same happens, with
  no error handler at all, when the listener throws \<^verbatim>\<open>undefined\<close>: reading \<^verbatim>\<open>err.stack\<close>
  throws.
\<close>

theorem receive_throwing_listener_never_calls_done:
  "receive
     \<lparr>name = ''Webby'', robot_alias = None,
      listeners = [\<lparr>matcher = \<lambda>m. Inl (Error ''bad matcher''), options = Options [],
                    callback = \<lambda>res hp. (hp, None)\<rparr>],
      errorHandlers = [\<lambda>err res hp. (hp, Some (Error ''handler failed''))],
      listener_middleware = [], receive_middleware = []\<rparr>
     (TextMessage ''alice'' 0 ''hello'') (Some ''onSettled'') \<lparr>heap = \<lambda>i. False, trace = []\<rparr>
   = (Throw (TypeError ''Cannot read property logger of undefined''),
      \<lparr>heap = \<lambda>i. False,
       trace = [MatcherCalled 0 (TextMessage ''alice'' 0 ''hello''),
                LoggerError ''Error: bad matcher'',
                ErrorHandlerCalled 0 (Error ''bad matcher'')
                  (Some \<lparr>message = Some (TextMessage ''alice'' 0 ''hello''),
                         match = JArray []\<rparr>)]\<rparr>)
   \<and> project done_call (snd (receive
     \<lparr>name = ''Webby'', robot_alias = None,
      listeners = [\<lparr>matcher = \<lambda>m. Inl (Error ''bad matcher''), options = Options [],
                    callback = \<lambda>res hp. (hp, None)\<rparr>],
      errorHandlers = [\<lambda>err res hp. (hp, Some (Error ''handler failed''))],
      listener_middleware = [], receive_middleware = []\<rparr>
     (TextMessage ''alice'' 0 ''hello'') (Some ''onSettled'') \<lparr>heap = \<lambda>i. False, trace = []\<rparr>))
     = []
   \<and> receive
     \<lparr>name = ''Webby'', robot_alias = None,
      listeners = [\<lparr>matcher = \<lambda>m. Inr (JBool True), options = Options [],
                    callback = \<lambda>res hp. (hp, Some ThrownUndefined)\<rparr>],
      errorHandlers = [],
      listener_middleware = [], receive_middleware = []\<rparr>
     (TextMessage ''alice'' 0 ''hello'') (Some ''onSettled'') \<lparr>heap = \<lambda>i. False, trace = []\<rparr>
   = (Throw (TypeError ''Cannot read property stack of undefined''),
      \<lparr>heap = \<lambda>i. False,
       trace = [MatcherCalled 0 (TextMessage ''alice'' 0 ''hello''),
                CallbackCalled 0
                  \<lparr>message = Some (TextMessage ''alice'' 0 ''hello''), match = JBool True\<rparr>]\<rparr>)"
  by (simp add: receive.simps processListeners.simps new_Response_def iterator_def
        Listener_call_def emit_error_def invokeErrorHandlers_def emit_event_def project_def)


lemma debug_line_fallback [simp]:
  "debug_line fallback = [''No listeners executed; falling back to catch-all'']"
  by (simp add: fallback_def)




section \<open>The trace only grows\<close>

lemma grows_forEach_errorHandler:
  "\<exists>es. trace (snd (forEach_errorHandler this i hs err res st)) = trace st @ es"
proof (induction hs arbitrary: i st)
  case Nil
  then show ?case by simp
next
  case (Cons h hs)
  obtain hp thrown where h: "h err res (heap (emit_event (ErrorHandlerCalled i err res) st)) = (hp, thrown)"
    by (cases "h err res (heap (emit_event (ErrorHandlerCalled i err res) st))")
  show ?case
  proof (cases thrown)
    case None
    with h Cons.IH[of "Suc i" "(emit_event (ErrorHandlerCalled i err res) st)\<lparr>heap := hp\<rparr>"]
    show ?thesis by (auto simp: Let_def emit_event_def)
  next
    case (Some e)
    show ?thesis
    proof (cases "stack e")
      case (Inl e')
      with Some h show ?thesis by (cases "logger this") (auto simp: Let_def emit_event_def)
    next
      case (Inr s)
      with Some h Cons.IH[of "Suc i" "emit_event (LoggerError (''while invoking error handler: '' @ s))
          ((emit_event (ErrorHandlerCalled i err res) st)\<lparr>heap := hp\<rparr>)"]
      show ?thesis by (cases "logger this") (auto simp: Let_def emit_event_def)
    qed
  qed
qed

lemma grows_emit_error:
  assumes "emit_error r err res st = (x, st')"
  shows "\<exists>es. trace st' = trace st @ es"
proof (cases "stack err")
  case (Inl e)
  with assms show ?thesis by (simp add: emit_error_def invokeErrorHandlers_def)
next
  case (Inr s)
  with assms
    grows_forEach_errorHandler[of ThisUndefined 0 "errorHandlers r" err res
      "emit_event (LoggerError s) st"]
  show ?thesis by (auto simp: emit_error_def invokeErrorHandlers_def emit_event_def)
qed

lemma grows_execute:
  "execute r mws ctx st = (x, st') \<Longrightarrow> \<exists>es. trace st' = trace st @ es"
proof (induction mws arbitrary: st)
  case Nil
  then show ?case by simp
next
  case (Cons mw mws)
  obtain hp action where mw: "mw ctx (heap st) = (hp, action)" by (cases "mw ctx (heap st)")
  show ?case
  proof (cases action)
    case CallsNext
    with mw Cons.prems Cons.IH[of "st\<lparr>heap := hp\<rparr>"] show ?thesis by (simp add: Let_def)
  next
    case CallsDone
    with mw Cons.prems show ?thesis by (auto simp: Let_def)
  next
    case (Throws e)
    obtain z st2 where em: "emit_error r e (Some (response ctx)) (st\<lparr>heap := hp\<rparr>) = (z, st2)"
      by (cases "emit_error r e (Some (response ctx)) (st\<lparr>heap := hp\<rparr>)")
    from grows_emit_error[OF em] Throws mw Cons.prems em show ?thesis
      by (cases z) (auto simp: Let_def)
  next
    case CallsNeither
    with mw Cons.prems show ?thesis by (auto simp: Let_def)
  qed
qed

lemma grows_Listener_call:
  assumes "Listener_call r i l msg st = (x, st')"
  shows "\<exists>es. trace st' = trace st @ es"
proof (cases "matcher l msg")
  case (Inl e)
  with assms show ?thesis by (auto simp: Listener_call_def Let_def emit_event_def)
next
  case (Inr v)
  show ?thesis
  proof (cases "truthy v")
    case False
    with Inr assms show ?thesis by (auto simp: Listener_call_def Let_def emit_event_def)
  next
    case True
    let ?ctx = "\<lparr>ctx_listener = Some i, response = new_Response msg v\<rparr>"
    obtain y st1 where ex: "execute r (listener_middleware r) ?ctx (emit_event (MatcherCalled i msg) st) = (y, st1)"
      by (cases "execute r (listener_middleware r) ?ctx (emit_event (MatcherCalled i msg) st)")
    from grows_execute[OF ex] obtain es where es: "trace st1 = trace st @ MatcherCalled i msg # es"
      by (auto simp: emit_event_def)
    show ?thesis using assms Inr True ex es
      by (cases y)
         (auto simp: Listener_call_def Let_def emit_event_def
            split: chain.splits prod.splits option.splits)
  qed
qed

lemma grows_iterator:
  assumes "iterator r msg i l a st = (x, st')"
  shows "\<exists>es. trace st' = trace st @ es"
proof -
  obtain y st1 where lc: "Listener_call r i l msg st = (y, st1)"
    by (cases "Listener_call r i l msg st")
  from grows_Listener_call[OF lc] obtain es where es: "trace st1 = trace st @ es" ..
  show ?thesis
  proof (cases y)
    case (Return b)
    with lc assms es show ?thesis by (auto simp: iterator_def)
  next
    case (Throw e)
    obtain z st2 where em: "emit_error r e (Some (new_Response msg (JArray []))) st1 = (z, st2)"
      by (cases "emit_error r e (Some (new_Response msg (JArray []))) st1")
    from grows_emit_error[OF em] Throw lc assms es em show ?thesis
      by (cases z) (auto simp: iterator_def)
  next
    case NoReturn
    with lc assms es show ?thesis by (auto simp: iterator_def)
  qed
qed

lemma grows_detectSeries:
  "detectSeries r msg i ls a st = (x, st') \<Longrightarrow> \<exists>es. trace st' = trace st @ es"
proof (induction ls arbitrary: i a st)
  case Nil
  then show ?case by simp
next
  case (Cons l ls)
  obtain y st1 where it: "iterator r msg i l a st = (y, st1)" by (cases "iterator r msg i l a st")
  from grows_iterator[OF it] obtain es where es: "trace st1 = trace st @ es" ..
  show ?case
  proof (cases y)
    case (Return p)
    obtain t a' where p: "p = (t, a')" by (cases p)
    show ?thesis
    proof (cases t)
      case True
      with Return p it Cons.prems es show ?thesis by auto
    next
      case False
      with Return p it Cons.prems have "detectSeries r msg (Suc i) ls a' st1 = (x, st')" by simp
      from Cons.IH[OF this] es show ?thesis by auto
    qed
  next
    case (Throw e)
    with it Cons.prems es show ?thesis by auto
  next
    case NoReturn
    with it Cons.prems es show ?thesis by auto
  qed
qed

lemma grows_call_done: "\<exists>es. trace (snd (call_done cb st)) = trace st @ es"
  by (cases cb) (simp_all add: emit_event_def)

lemma grows_receive_after_search:
  assumes rec: "\<And>msg' st'. instanceof_CatchAllMessage msg' \<Longrightarrow>
       \<exists>es. trace (snd (receive r msg' cb st')) = trace st' @ es"
    and m: "message (response ctx) = Some msg"
    and ds: "detectSeries r msg 0 (listeners r) False st = (x, st1)"
  shows "\<exists>es. trace (snd (processListeners r ctx cb st)) = trace st1 @ es"
proof (cases x)
  case (Return a)
  show ?thesis
  proof (cases "\<not> instanceof_CatchAllMessage msg \<and> \<not> a")
    case True
    let ?m = "fst (new_CatchAllMessage msg (heap st1))"
    let ?st = "(emit_event fallback st1)\<lparr>heap := snd (new_CatchAllMessage msg (heap st1))\<rparr>"
    have eq: "processListeners r ctx cb st = receive r ?m cb ?st"
      using processListeners_fallback[OF _ m, of r st st1 cb] True Return ds by simp
    from rec[of ?m ?st] obtain es where "trace (snd (receive r ?m cb ?st)) = trace ?st @ es"
      by auto
    then show ?thesis using eq by (simp add: emit_event_def)
  next
    case False
    then have "processListeners r ctx cb st =
        (case cb of None \<Rightarrow> (Return (), st1) | Some f \<Rightarrow> (Return (), emit_event (DoneCalled f) st1))"
      using processListeners_no_fallback[OF m, of r st a st1 cb] Return ds by auto
    then show ?thesis by (cases cb) (simp_all add: emit_event_def)
  qed
next
  case (Throw e)
  with ds m show ?thesis by (simp add: processListeners.simps)
next
  case NoReturn
  with ds m show ?thesis by (simp add: processListeners.simps)
qed

lemma grows_receive_CatchAll:
  assumes c: "instanceof_CatchAllMessage msg"
  shows "\<exists>es. trace (snd (receive r msg cb st)) = trace st @ es"
proof -
  let ?ctx = "\<lparr>ctx_listener = None, response = new_Response msg JUndefined\<rparr>"
  have m: "message (response ?ctx) = Some msg" by (simp add: new_Response_def)
  obtain x st1 where ex: "execute r (receive_middleware r) ?ctx st = (x, st1)"
    by (cases "execute r (receive_middleware r) ?ctx st")
  from grows_execute[OF ex] obtain es1 where es1: "trace st1 = trace st @ es1" ..
  obtain y st2 where ds: "detectSeries r msg 0 (listeners r) False st1 = (y, st2)"
    by (cases "detectSeries r msg 0 (listeners r) False st1")
  from grows_detectSeries[OF ds] obtain es2 where es2: "trace st2 = trace st1 @ es2" ..
  from grows_call_done[of cb st2] obtain es3 where es3: "trace (snd (call_done cb st2)) = trace st2 @ es3" ..
  from grows_call_done[of cb st1] obtain es4 where es4: "trace (snd (call_done cb st1)) = trace st1 @ es4" ..
  show ?thesis
    using ex ds es1 es2 es3 es4
    by (cases x; cases y)
       (auto simp: receive_unfold processListeners_CatchAll[OF c m] split: chain.splits)
qed

lemma grows_processListeners:
  assumes m: "message (response ctx) = Some msg"
  shows "\<exists>es. trace (snd (processListeners r ctx cb st)) = trace st @ es"
proof -
  obtain x st1 where ds: "detectSeries r msg 0 (listeners r) False st = (x, st1)"
    by (cases "detectSeries r msg 0 (listeners r) False st")
  from grows_detectSeries[OF ds] obtain es1 where "trace st1 = trace st @ es1" ..
  moreover from grows_receive_after_search[OF grows_receive_CatchAll m ds, of cb]
  obtain es2 where "trace (snd (processListeners r ctx cb st)) = trace st1 @ es2" by blast
  ultimately show ?thesis by simp
qed

lemma processListeners_after_search:
  assumes m: "message (response ctx) = Some msg"
    and ds: "detectSeries r msg 0 (listeners r) False st = (x, st1)"
  shows "\<exists>es. trace (snd (processListeners r ctx cb st)) = trace st1 @ es"
  by (rule grows_receive_after_search[OF grows_receive_CatchAll m ds])


lemma forEach_errorHandler_trace:
  assumes "\<forall>h \<in> set hs. \<forall>err res hp. snd (h err res hp) = None"
  shows "trace (snd (forEach_errorHandler this i hs err res st)) =
     trace st @ map (\<lambda>k. ErrorHandlerCalled k err res) [i..<i + length hs]"
  using assms
proof (induction hs arbitrary: i st)
  case Nil
  then show ?case by simp
next
  case (Cons h hs)
  obtain hp thrown where h: "h err res (heap (emit_event (ErrorHandlerCalled i err res) st)) = (hp, thrown)"
    by (cases "h err res (heap (emit_event (ErrorHandlerCalled i err res) st))")
  moreover have "thrown = None" using Cons.prems h by (metis list.set_intros(1) snd_conv)
  moreover have "[i..<i + length (h # hs)] = i # [Suc i..<Suc i + length hs]"
    using upt_conv_Cons[of i "i + length (h # hs)"] by simp
  ultimately show ?case using Cons by (simp add: Let_def emit_event_def)
qed

text \<open>
  When no registered error handler throws, emitting an error that has a \<^verbatim>\<open>stack\<close> logs
  it and calls every handler, in registration order, with the error and the response.
\<close>

lemma emit_error_trace:
  assumes "handlers_return r" and "stack e = Inr s"
  shows "trace (snd (emit_error r e res st)) =
     trace st @ LoggerError s # map (\<lambda>k. ErrorHandlerCalled k e res)
                                  [0..<length (errorHandlers r)]"
  using assms forEach_errorHandler_trace[of "errorHandlers r" ThisUndefined 0 e res
      "emit_event (LoggerError s) st"]
  by (simp add: emit_error_def invokeErrorHandlers_def handlers_return_def emit_event_def)

lemma emit_error_Return:
  assumes "handlers_return r" and "has_stack e"
  shows "emit_error r e res st = (Return (), snd (emit_error r e res st))"
  using emit_error_returns[OF assms, of res st] by (cases "emit_error r e res st") simp

text \<open>A listener whose matcher throws, and one whose callback throws.\<close>

lemma Listener_call_matcher_throws:
  "matcher l msg = Inl e \<Longrightarrow>
     Listener_call r i l msg st = (Throw e, emit_event (MatcherCalled i msg) st)"
  by (simp add: Listener_call_def Let_def)

lemma Listener_call_callback_throws:
  assumes "matcher l msg = Inr v" and "truthy v"
    and "execute r (listener_middleware r) \<lparr>ctx_listener = Some i, response = new_Response msg v\<rparr>
           (emit_event (MatcherCalled i msg) st) = (Return Completed, st1)"
    and "callback l (new_Response msg v) (heap st1) = (hp, Some e)"
  shows "Listener_call r i l msg st =
     (Throw e, (emit_event (CallbackCalled i (new_Response msg v)) st1)\<lparr>heap := hp\<rparr>)"
  using assms by (simp add: Listener_call_def Let_def emit_event_def)

lemma iterator_Listener_call_throws:
  assumes "handlers_return r" and "has_stack e"
    and "Listener_call r i l msg st = (Throw e, st1)"
  shows "iterator r msg i l a st =
     (Return (False, a), snd (emit_error r e (Some (new_Response msg (JArray []))) st1))"
proof -
  obtain st2 where "emit_error r e (Some (new_Response msg (JArray []))) st1 = (Return (), st2)"
    using emit_error_Return[OF assms(1,2)] by blast
  with assms(3) show ?thesis by (simp add: iterator_def)
qed

lemma detectSeries_Listener_call_throws:
  assumes "handlers_return r" and "has_stack e"
    and "Listener_call r i l msg st = (Throw e, st1)"
  shows "detectSeries r msg i (l # ls) a st =
     detectSeries r msg (Suc i) ls a
       (snd (emit_error r e (Some (new_Response msg (JArray []))) st1))"
  by (simp add: iterator_Listener_call_throws[OF assms])

lemma Listener_call_executes:
  assumes "\<forall>mw \<in> set (listener_middleware r). passes_on mw"
    and "matcher l msg = Inr v" and "truthy v"
  shows "\<exists>es. trace (snd (Listener_call r i l msg st)) =
     trace st @ [MatcherCalled i msg, CallbackCalled i (new_Response msg v)] @ es"
  using assms
  by (auto simp: Listener_call_def Let_def execute_passes_on emit_event_def
        split: prod.splits option.splits)

lemma iterator_executes:
  assumes "\<forall>mw \<in> set (listener_middleware r). passes_on mw"
    and "matcher l msg = Inr v" and "truthy v"
  shows "\<exists>es. trace (snd (iterator r msg i l a st)) =
     trace st @ [MatcherCalled i msg, CallbackCalled i (new_Response msg v)] @ es"
proof -
  obtain y st1 where lc: "Listener_call r i l msg st = (y, st1)"
    by (cases "Listener_call r i l msg st")
  from Listener_call_executes[OF assms, of i st] lc obtain es where
    es: "trace st1 = trace st @ [MatcherCalled i msg, CallbackCalled i (new_Response msg v)] @ es"
    by auto
  obtain x st2 where it: "iterator r msg i l a st = (x, st2)" by (cases "iterator r msg i l a st")
  show ?thesis
  proof (cases y)
    case (Return b)
    with lc it es show ?thesis by (auto simp: iterator_def)
  next
    case (Throw e)
    obtain z st3 where em: "emit_error r e (Some (new_Response msg (JArray []))) st1 = (z, st3)"
      by (cases "emit_error r e (Some (new_Response msg (JArray []))) st1")
    from grows_emit_error[OF em] Throw lc it es em show ?thesis
      by (cases z) (auto simp: iterator_def)
  next
    case NoReturn
    with lc it es show ?thesis by (auto simp: iterator_def)
  qed
qed

lemma detectSeries_executes_first:
  assumes "\<forall>mw \<in> set (listener_middleware r). passes_on mw"
    and "matcher l msg = Inr v" and "truthy v"
  shows "\<exists>es. trace (snd (detectSeries r msg i (l # ls) a st)) =
     trace st @ [MatcherCalled i msg, CallbackCalled i (new_Response msg v)] @ es"
proof -
  obtain y st1 where it: "iterator r msg i l a st = (y, st1)" by (cases "iterator r msg i l a st")
  from iterator_executes[OF assms, of i a st] it obtain es where
    es: "trace st1 = trace st @ [MatcherCalled i msg, CallbackCalled i (new_Response msg v)] @ es"
    by auto
  show ?thesis
  proof (cases y)
    case (Return p)
    obtain t a' where p: "p = (t, a')" by (cases p)
    obtain x st2 where ds: "detectSeries r msg (Suc i) ls a' st1 = (x, st2)"
      by (cases "detectSeries r msg (Suc i) ls a' st1")
    from grows_detectSeries[OF ds] obtain es' where "trace st2 = trace st1 @ es'" ..
    with Return p it es ds show ?thesis by (cases t) auto
  next
    case (Throw e)
    with it es show ?thesis by auto
  next
    case NoReturn
    with it es show ?thesis by auto
  qed
qed


section \<open>Listeners that throw\<close>

lemma executed_in_trace:
  "trace st' = tr @ [MatcherCalled i msg, CallbackCalled i res] @ es \<Longrightarrow>
     (i, res) \<in> set (project executed st')"
  by (simp add: project_def)

lemma executed_mono:
  "trace st' = trace st @ es \<Longrightarrow> x \<in> set (project g st) \<Longrightarrow> x \<in> set (project g st')"
  by (simp add: project_def)

lemma second_listener_executes:
  assumes hr: "handlers_return r" and hs: "has_stack e" and ls: "listeners r = [A, B]"
    and mw: "\<forall>mw \<in> set (listener_middleware r). passes_on mw"
    and m: "message (response ctx) = Some msg"
    and A: "matcher A msg = Inl e \<or>
            (\<exists>vA. matcher A msg = Inr vA \<and> truthy vA \<and>
                  (\<forall>hp. snd (callback A (new_Response msg vA) hp) = Some e))"
    and B: "matcher B msg = Inr vB" "truthy vB"
  shows "(1, new_Response msg vB) \<in> set (project executed (snd (processListeners r ctx cb st)))"
proof -
  have "\<exists>st1. Listener_call r 0 A msg st = (Throw e, st1)"
  proof (cases "matcher A msg")
    case (Inl e')
    with A have "e' = e" by auto
    with Inl show ?thesis by (simp add: Listener_call_matcher_throws)
  next
    case (Inr vA)
    with A have t: "truthy vA" and c: "\<forall>hp. snd (callback A (new_Response msg vA) hp) = Some e"
      by auto
    let ?st0 = "emit_event (MatcherCalled 0 msg) st"
    obtain hp where "callback A (new_Response msg vA) (heap ?st0) = (hp, Some e)"
      using c by (metis prod.collapse)
    from Listener_call_callback_throws[OF Inr t execute_passes_on[OF mw] this]
    show ?thesis by blast
  qed
  then obtain st1 where lc: "Listener_call r 0 A msg st = (Throw e, st1)" ..
  let ?st2 = "snd (emit_error r e (Some (new_Response msg (JArray []))) st1)"
  have ds: "detectSeries r msg 0 (listeners r) False st = detectSeries r msg (Suc 0) [B] False ?st2"
    using detectSeries_Listener_call_throws[OF hr hs lc] ls by simp
  obtain x st3 where ds3: "detectSeries r msg 0 (listeners r) False st = (x, st3)"
    by (cases "detectSeries r msg 0 (listeners r) False st")
  from ds[symmetric] ds3 have d1: "detectSeries r msg (Suc 0) [B] False ?st2 = (x, st3)"
    by (rule trans)
  from detectSeries_executes_first[OF mw B, of "Suc 0" "[]" False ?st2]
  obtain es where "trace (snd (detectSeries r msg (Suc 0) [B] False ?st2)) =
      trace ?st2 @ [MatcherCalled (Suc 0) msg, CallbackCalled (Suc 0) (new_Response msg vB)] @ es"
    by blast
  then have "trace st3 =
      trace ?st2 @ [MatcherCalled 1 msg, CallbackCalled 1 (new_Response msg vB)] @ es"
    unfolding d1 by simp
  then have "(1, new_Response msg vB) \<in> set (project executed st3)"
    by (rule executed_in_trace)
  moreover from processListeners_after_search[OF m ds3, of cb]
  obtain es' where "trace (snd (processListeners r ctx cb st)) = trace st3 @ es'" ..
  ultimately show ?thesis by (rule executed_mono[rotated])
qed

text \<open>
  When no registered error handler throws: a listener whose matcher throws, or whose
  callback throws after its middleware chain completed, leaves
  \<^verbatim>\<open>anyListenersExecuted\<close> as it was, and the search goes on with the next listener from
  the state in which the exception (one with a \<^verbatim>\<open>stack\<close>) has been emitted with a new
  response to the message; emitting logs the error and calls every error handler, in
  registration order, with the error and that response.  With listeners \<open>[A, B]\<close> where
  \<open>A\<close> throws and \<open>B\<close> matches (and the listener middleware passes on), the callback of
  \<open>B\<close> is called.
\<close>

lemma throwing_listener_is_skipped_under_contract:
  assumes hr: "handlers_return r" and hs: "stack e = Inr s"
  shows "(matcher l msg = Inl e \<longrightarrow>
        detectSeries r msg i (l # ls) a st =
          detectSeries r msg (Suc i) ls a
            (snd (emit_error r e (Some (new_Response msg (JArray [])))
                    (emit_event (MatcherCalled i msg) st))))
   \<and> (matcher l msg = Inr v \<and> truthy v \<and>
        execute r (listener_middleware r)
          \<lparr>ctx_listener = Some i, response = new_Response msg v\<rparr>
          (emit_event (MatcherCalled i msg) st) = (Return Completed, st1) \<and>
        callback l (new_Response msg v) (heap st1) = (hp, Some e) \<longrightarrow>
        detectSeries r msg i (l # ls) a st =
          detectSeries r msg (Suc i) ls a
            (snd (emit_error r e (Some (new_Response msg (JArray [])))
                    ((emit_event (CallbackCalled i (new_Response msg v)) st1)\<lparr>heap := hp\<rparr>))))
   \<and> fst (emit_error r e res st) = Return ()
   \<and> trace (snd (emit_error r e res st)) =
        trace st @ LoggerError s #
          map (\<lambda>k. ErrorHandlerCalled k e res) [0..<length (errorHandlers r)]
   \<and> (listeners r = [A, B] \<and> (\<forall>mw \<in> set (listener_middleware r). passes_on mw) \<and>
        message (response ctx) = Some msg \<and>
        (matcher A msg = Inl e \<or>
           (\<exists>vA. matcher A msg = Inr vA \<and> truthy vA \<and>
                 (\<forall>hp. snd (callback A (new_Response msg vA) hp) = Some e))) \<and>
        matcher B msg = Inr vB \<and> truthy vB \<longrightarrow>
        (1, new_Response msg vB) \<in> set (project executed (snd (processListeners r ctx cb st))))"
proof -
  have st: "has_stack e" using hs by (simp add: has_stack_iff)
  have c1: "matcher l msg = Inl e \<longrightarrow>
        detectSeries r msg i (l # ls) a st =
          detectSeries r msg (Suc i) ls a
            (snd (emit_error r e (Some (new_Response msg (JArray [])))
                    (emit_event (MatcherCalled i msg) st)))"
  proof
    assume "matcher l msg = Inl e"
    then show "detectSeries r msg i (l # ls) a st =
            detectSeries r msg (Suc i) ls a
              (snd (emit_error r e (Some (new_Response msg (JArray [])))
                      (emit_event (MatcherCalled i msg) st)))"
      by (rule detectSeries_Listener_call_throws[OF hr st Listener_call_matcher_throws])
  qed
  have c2: "matcher l msg = Inr v \<and> truthy v \<and>
        execute r (listener_middleware r)
          \<lparr>ctx_listener = Some i, response = new_Response msg v\<rparr>
          (emit_event (MatcherCalled i msg) st) = (Return Completed, st1) \<and>
        callback l (new_Response msg v) (heap st1) = (hp, Some e) \<longrightarrow>
        detectSeries r msg i (l # ls) a st =
          detectSeries r msg (Suc i) ls a
            (snd (emit_error r e (Some (new_Response msg (JArray [])))
                    ((emit_event (CallbackCalled i (new_Response msg v)) st1)\<lparr>heap := hp\<rparr>)))"
  proof
    assume a: "matcher l msg = Inr v \<and> truthy v \<and>
          execute r (listener_middleware r)
            \<lparr>ctx_listener = Some i, response = new_Response msg v\<rparr>
            (emit_event (MatcherCalled i msg) st) = (Return Completed, st1) \<and>
          callback l (new_Response msg v) (heap st1) = (hp, Some e)"
    then have "Listener_call r i l msg st =
       (Throw e, (emit_event (CallbackCalled i (new_Response msg v)) st1)\<lparr>heap := hp\<rparr>)"
      by (intro Listener_call_callback_throws) simp_all
    then show "detectSeries r msg i (l # ls) a st =
            detectSeries r msg (Suc i) ls a
              (snd (emit_error r e (Some (new_Response msg (JArray [])))
                      ((emit_event (CallbackCalled i (new_Response msg v)) st1)\<lparr>heap := hp\<rparr>)))"
      by (rule detectSeries_Listener_call_throws[OF hr st])
  qed
  have c3: "fst (emit_error r e res st) = Return ()" by (rule emit_error_returns[OF hr st])
  have c4: "trace (snd (emit_error r e res st)) =
          trace st @ LoggerError s #
            map (\<lambda>k. ErrorHandlerCalled k e res) [0..<length (errorHandlers r)]"
    by (rule emit_error_trace[OF hr hs])
  have c5: "listeners r = [A, B] \<and> (\<forall>mw \<in> set (listener_middleware r). passes_on mw) \<and>
        message (response ctx) = Some msg \<and>
        (matcher A msg = Inl e \<or>
           (\<exists>vA. matcher A msg = Inr vA \<and> truthy vA \<and>
                 (\<forall>hp. snd (callback A (new_Response msg vA) hp) = Some e))) \<and>
        matcher B msg = Inr vB \<and> truthy vB \<longrightarrow>
        (1, new_Response msg vB) \<in> set (project executed (snd (processListeners r ctx cb st)))"
  proof
    assume "listeners r = [A, B] \<and> (\<forall>mw \<in> set (listener_middleware r). passes_on mw) \<and>
          message (response ctx) = Some msg \<and>
          (matcher A msg = Inl e \<or>
             (\<exists>vA. matcher A msg = Inr vA \<and> truthy vA \<and>
                   (\<forall>hp. snd (callback A (new_Response msg vA) hp) = Some e))) \<and>
          matcher B msg = Inr vB \<and> truthy vB"
    then have "listeners r = [A, B]" and "\<forall>mw \<in> set (listener_middleware r). passes_on mw"
      and "message (response ctx) = Some msg"
      and "matcher A msg = Inl e \<or>
             (\<exists>vA. matcher A msg = Inr vA \<and> truthy vA \<and>
                   (\<forall>hp. snd (callback A (new_Response msg vA) hp) = Some e))"
      and "matcher B msg = Inr vB" and "truthy vB"
      by blast+
    then show "(1, new_Response msg vB) \<in> set (project executed (snd (processListeners r ctx cb st)))"
      by (rule second_listener_executes[OF hr st])
  qed
  show ?thesis by (intro conjI c1 c2 c3 c4 c5)
qed

lemma throwing_listener_is_skipped_example:
  "(1, new_Response (TextMessage ''alice'' 0 ''hello'') (JBool True)) \<in> set (project executed (snd (processListeners
      \<lparr>name = ''Webby'', robot_alias = None,
       listeners = [\<lparr>matcher = \<lambda>m. Inr (JBool True), options = Options [],
                     callback = \<lambda>res hp. (hp, Some (Error ''A failed''))\<rparr>,
                    \<lparr>matcher = \<lambda>m. Inr (JBool True), options = Options [],
                     callback = \<lambda>res hp. (hp, None)\<rparr>],
       errorHandlers = [\<lambda>err res hp. (hp, None)],
       listener_middleware = [], receive_middleware = []\<rparr>
      \<lparr>ctx_listener = None, response = new_Response (TextMessage ''alice'' 0 ''hello'') JUndefined\<rparr>
      (Some ''onSettled'') \<lparr>heap = \<lambda>i. False, trace = []\<rparr>)))"
proof -
  let ?A = "\<lparr>matcher = \<lambda>m. Inr (JBool True), options = Options [],
                     callback = \<lambda>res hp. (hp, Some (Error ''A failed''))\<rparr>"
  let ?B = "\<lparr>matcher = \<lambda>m. Inr (JBool True), options = Options [],
                     callback = \<lambda>res hp. (hp, None)\<rparr>"
  let ?r = "\<lparr>name = ''Webby'', robot_alias = None, listeners = [?A, ?B],
       errorHandlers = [\<lambda>err res hp. (hp, None)],
       listener_middleware = [], receive_middleware = []\<rparr>"
  let ?msg = "TextMessage ''alice'' 0 ''hello''"
  let ?ctx = "\<lparr>ctx_listener = None, response = new_Response ?msg JUndefined\<rparr>"
  have h: "handlers_return ?r" by (simp add: handlers_return_def)
  have s: "stack (Error ''A failed'') = Inr ''Error: A failed''" by simp
  have a: "listeners ?r = [?A, ?B] \<and> (\<forall>mw \<in> set (listener_middleware ?r). passes_on mw) \<and>
        message (response ?ctx) = Some ?msg \<and>
        (matcher ?A ?msg = Inl (Error ''A failed'') \<or>
           (\<exists>vA. matcher ?A ?msg = Inr vA \<and> truthy vA \<and>
                 (\<forall>hp. snd (callback ?A (new_Response ?msg vA) hp) = Some (Error ''A failed'')))) \<and>
        matcher ?B ?msg = Inr (JBool True) \<and> truthy (JBool True)"
    by (simp add: new_Response_def)
  from throwing_listener_is_skipped_under_contract[OF h s, where A = ?A and B = ?B and msg = ?msg
         and ctx = ?ctx and vB = "JBool True"
         and cb = "Some ''onSettled''" and st = "\<lparr>heap = \<lambda>i. False, trace = []\<rparr>"] a
  show ?thesis by blast
qed

text \<open>
  C4, at listeners \<open>[A, B]\<close> where \<open>A\<close> throws and \<open>B\<close> matches.  With a registered error
  handler that throws, the exception of \<open>A\<close> is emitted with a new response and the
  handler is called; then the TypeError of \<^verbatim>\<open>invokeErrorHandlers\<close> leaves the catch
  block of the iterator before \<^verbatim>\<open>cb(false)\<close>: the search ends there, \<open>B\<close> is never
  attempted and the pass throws.  This is so when the callback of \<open>A\<close> throws and when
  its matcher throws.  With no error handler at all and \<open>A\<close> throwing \<^verbatim>\<open>undefined\<close>,
  reading \<^verbatim>\<open>err.stack\<close> throws before anything is logged, and \<open>B\<close> is never attempted
  either.
\<close>

theorem throwing_listener_ends_search_when_reporting_throws:
  "processListeners
     \<lparr>name = ''Webby'', robot_alias = None,
      listeners = [\<lparr>matcher = \<lambda>m. Inr (JBool True), options = Options [],
                    callback = \<lambda>res hp. (hp, Some (Error ''A failed''))\<rparr>,
                   \<lparr>matcher = \<lambda>m. Inr (JBool True), options = Options [],
                    callback = \<lambda>res hp. (hp, None)\<rparr>],
      errorHandlers = [\<lambda>err res hp. (hp, Some (Error ''handler failed''))],
      listener_middleware = [], receive_middleware = []\<rparr>
     \<lparr>ctx_listener = None,
      response = \<lparr>message = Some (TextMessage ''alice'' 0 ''hello''), match = JUndefined\<rparr>\<rparr>
     (Some ''onSettled'') \<lparr>heap = \<lambda>i. False, trace = []\<rparr>
   = (Throw (TypeError ''Cannot read property logger of undefined''),
      \<lparr>heap = \<lambda>i. False,
       trace = [MatcherCalled 0 (TextMessage ''alice'' 0 ''hello''),
                CallbackCalled 0
                  \<lparr>message = Some (TextMessage ''alice'' 0 ''hello''), match = JBool True\<rparr>,
                LoggerError ''Error: A failed'',
                ErrorHandlerCalled 0 (Error ''A failed'')
                  (Some \<lparr>message = Some (TextMessage ''alice'' 0 ''hello''),
                         match = JArray []\<rparr>)]\<rparr>)
   \<and> project attempted (snd (processListeners
     \<lparr>name = ''Webby'', robot_alias = None,
      listeners = [\<lparr>matcher = \<lambda>m. Inr (JBool True), options = Options [],
                    callback = \<lambda>res hp. (hp, Some (Error ''A failed''))\<rparr>,
                   \<lparr>matcher = \<lambda>m. Inr (JBool True), options = Options [],
                    callback = \<lambda>res hp. (hp, None)\<rparr>],
      errorHandlers = [\<lambda>err res hp. (hp, Some (Error ''handler failed''))],
      listener_middleware = [], receive_middleware = []\<rparr>
     \<lparr>ctx_listener = None,
      response = \<lparr>message = Some (TextMessage ''alice'' 0 ''hello''), match = JUndefined\<rparr>\<rparr>
     (Some ''onSettled'') \<lparr>heap = \<lambda>i. False, trace = []\<rparr>))
     = [0]
   \<and> processListeners
     \<lparr>name = ''Webby'', robot_alias = None,
      listeners = [\<lparr>matcher = \<lambda>m. Inl (Error ''A failed''), options = Options [],
                    callback = \<lambda>res hp. (hp, None)\<rparr>,
                   \<lparr>matcher = \<lambda>m. Inr (JBool True), options = Options [],
                    callback = \<lambda>res hp. (hp, None)\<rparr>],
      errorHandlers = [\<lambda>err res hp. (hp, Some (Error ''handler failed''))],
      listener_middleware = [], receive_middleware = []\<rparr>
     \<lparr>ctx_listener = None,
      response = \<lparr>message = Some (TextMessage ''alice'' 0 ''hello''), match = JUndefined\<rparr>\<rparr>
     (Some ''onSettled'') \<lparr>heap = \<lambda>i. False, trace = []\<rparr>
   = (Throw (TypeError ''Cannot read property logger of undefined''),
      \<lparr>heap = \<lambda>i. False,
       trace = [MatcherCalled 0 (TextMessage ''alice'' 0 ''hello''),
                LoggerError ''Error: A failed'',
                ErrorHandlerCalled 0 (Error ''A failed'')
                  (Some \<lparr>message = Some (TextMessage ''alice'' 0 ''hello''),
                         match = JArray []\<rparr>)]\<rparr>)
   \<and> processListeners
     \<lparr>name = ''Webby'', robot_alias = None,
      listeners = [\<lparr>matcher = \<lambda>m. Inr (JBool True), options = Options [],
                    callback = \<lambda>res hp. (hp, Some ThrownUndefined)\<rparr>,
                   \<lparr>matcher = \<lambda>m. Inr (JBool True), options = Options [],
                    callback = \<lambda>res hp. (hp, None)\<rparr>],
      errorHandlers = [],
      listener_middleware = [], receive_middleware = []\<rparr>
     \<lparr>ctx_listener = None,
      response = \<lparr>message = Some (TextMessage ''alice'' 0 ''hello''), match = JUndefined\<rparr>\<rparr>
     (Some ''onSettled'') \<lparr>heap = \<lambda>i. False, trace = []\<rparr>
   = (Throw (TypeError ''Cannot read property stack of undefined''),
      \<lparr>heap = \<lambda>i. False,
       trace = [MatcherCalled 0 (TextMessage ''alice'' 0 ''hello''),
                CallbackCalled 0
                  \<lparr>message = Some (TextMessage ''alice'' 0 ''hello''), match = JBool True\<rparr>]\<rparr>)"
  by (simp add: processListeners.simps new_Response_def iterator_def
        Listener_call_def emit_error_def invokeErrorHandlers_def emit_event_def project_def)


section \<open>The order of the search\<close>

lemma error_silent_attempted [simp]: "error_silent attempted"
  by (simp add: error_silent_def)

lemma error_silent_executed [simp]: "error_silent executed"
  by (simp add: error_silent_def)

lemma attempted_Listener_call:
  assumes "Listener_call r i l msg st = (x, st')"
  shows "project attempted st' = project attempted st @ [i]"
proof (cases "matcher l msg")
  case (Inl e)
  with assms show ?thesis by (auto simp: Listener_call_def Let_def)
next
  case (Inr v)
  show ?thesis
  proof (cases "truthy v")
    case False
    with Inr assms show ?thesis by (auto simp: Listener_call_def Let_def)
  next
    case True
    let ?ctx = "\<lparr>ctx_listener = Some i, response = new_Response msg v\<rparr>"
    obtain y st1 where ex: "execute r (listener_middleware r) ?ctx (emit_event (MatcherCalled i msg) st) = (y, st1)"
      by (cases "execute r (listener_middleware r) ?ctx (emit_event (MatcherCalled i msg) st)")
    from project_execute[OF _ ex, of attempted]
    have "project attempted st1 = project attempted st @ [i]" by simp
    then show ?thesis using assms Inr True ex
      by (cases y)
         (auto simp: Listener_call_def Let_def split: chain.splits prod.splits option.splits)
  qed
qed

lemma attempted_iterator:
  assumes "iterator r msg i l a st = (x, st')"
  shows "project attempted st' = project attempted st @ [i]"
proof -
  obtain y st1 where lc: "Listener_call r i l msg st = (y, st1)"
    by (cases "Listener_call r i l msg st")
  note p = attempted_Listener_call[OF lc]
  show ?thesis
  proof (cases y)
    case (Return b)
    with lc assms p show ?thesis by (auto simp: iterator_def)
  next
    case (Throw e)
    obtain z st2 where em: "emit_error r e (Some (new_Response msg (JArray []))) st1 = (z, st2)"
      by (cases "emit_error r e (Some (new_Response msg (JArray []))) st1")
    from project_emit_error[OF _ em, of attempted] Throw lc assms p em show ?thesis
      by (cases z) (auto simp: iterator_def)
  next
    case NoReturn
    with lc assms p show ?thesis by (auto simp: iterator_def)
  qed
qed

text \<open>
  The search attempts the listeners in registration order, one after the other from
  the first, and when it returns before the last listener the message is done.
\<close>

lemma attempted_detectSeries:
  "detectSeries r msg i ls a st = (x, st') \<Longrightarrow>
     \<exists>k \<le> length ls. project attempted st' = project attempted st @ [i..<i + k] \<and>
        (k < length ls \<and> (\<exists>a'. x = Return a') \<longrightarrow> is_done (heap st') msg)"
proof (induction ls arbitrary: i a st)
  case Nil
  then show ?case by simp
next
  case (Cons l ls)
  obtain y st1 where it: "iterator r msg i l a st = (y, st1)" by (cases "iterator r msg i l a st")
  note p = attempted_iterator[OF it]
  have one: "[i..<i + 1] = [i]" by simp
  show ?case
  proof (cases y)
    case (Return q)
    obtain t a' where q: "q = (t, a')" by (cases q)
    show ?thesis
    proof (cases t)
      case True
      have "is_done (heap st1) msg"
        using it Return q True
        by (auto simp: iterator_def split: prod.splits result.splits)
      moreover have "st' = st1" using Return q it Cons.prems True by simp
      ultimately show ?thesis using p one by (intro exI[of _ 1]) simp
    next
      case False
      with Return q it Cons.prems have "detectSeries r msg (Suc i) ls a' st1 = (x, st')" by simp
      from Cons.IH[OF this] obtain k where k: "k \<le> length ls"
        "project attempted st' = project attempted st1 @ [Suc i..<Suc i + k]"
        "k < length ls \<and> (\<exists>a'. x = Return a') \<longrightarrow> is_done (heap st') msg" by blast
      have "[i..<i + Suc k] = i # [Suc i..<Suc i + k]"
        using upt_conv_Cons[of i "i + Suc k"] by simp
      with k p show ?thesis by (intro exI[of _ "Suc k"]) simp
    qed
  next
    case (Throw e)
    with it Cons.prems p one show ?thesis by (intro exI[of _ 1]) auto
  next
    case NoReturn
    with it Cons.prems p one show ?thesis by (intro exI[of _ 1]) auto
  qed
qed

lemma detectSeries_stops_when_done:
  assumes "Listener_call r i l msg st = (Return x, st1)" and "is_done (heap st1) msg"
  shows "detectSeries r msg i (l # ls) a st = (Return (a \<or> x), st1)"
  using assms by (simp add: iterator_def)

lemma detectSeries_continues:
  assumes "Listener_call r i l msg st = (Return x, st1)" and "\<not> is_done (heap st1) msg"
  shows "detectSeries r msg i (l # ls) a st = detectSeries r msg (Suc i) ls (a \<or> x) st1"
  using assms by (simp add: iterator_def)

lemma Listener_call_executes_returns:
  assumes "\<forall>mw \<in> set (listener_middleware r). passes_on mw"
    and "matcher l msg = Inr v" and "truthy v"
    and "callback l (new_Response msg v) (heap st) = (hp, None)"
  shows "Listener_call r i l msg st =
     (Return True, st\<lparr>trace := trace st @ [MatcherCalled i msg, CallbackCalled i (new_Response msg v)],
                      heap := hp\<rparr>)"
  using assms by (simp add: Listener_call_def Let_def execute_passes_on emit_event_def)

lemma Listener_call_no_match:
  assumes "matcher l msg = Inr v" and "\<not> truthy v"
  shows "Listener_call r i l msg st = (Return False, emit_event (MatcherCalled i msg) st)"
  using assms by (simp add: Listener_call_def Let_def)

lemma forEach_errorHandler_no_stall:
  "fst (forEach_errorHandler this i hs err res st) \<noteq> NoReturn"
  by (induction hs arbitrary: i st)
     (auto simp: Let_def split: prod.splits option.splits sum.splits)

lemma emit_error_no_stall: "emit_error r e res st = (z, st') \<Longrightarrow> z \<noteq> NoReturn"
  using forEach_errorHandler_no_stall[of ThisUndefined 0 "errorHandlers r" e res]
  by (auto simp: emit_error_def invokeErrorHandlers_def split: sum.splits)
     (metis fst_conv)

text \<open>The last listener of the list, when it matches and a listener has executed before.\<close>

lemma detectSeries_last_executes:
  assumes mw: "\<forall>mw \<in> set (listener_middleware r). passes_on mw"
    and C: "matcher l msg = Inr v" "truthy v"
    and ds: "detectSeries r msg i [l] True st = (x, st')"
  shows "project executed st' = project executed st @ [(i, new_Response msg v)]
     \<and> project attempted st' = project attempted st @ [i]
     \<and> (x = Return True \<or> (\<exists>e. x = Throw e))"
proof -
  let ?res = "new_Response msg v"
  let ?st1 = "emit_event (CallbackCalled i ?res) (emit_event (MatcherCalled i msg) st)"
  obtain hp thrown where cb: "callback l ?res (heap st) = (hp, thrown)"
    by (cases "callback l ?res (heap st)")
  show ?thesis
  proof (cases thrown)
    case None
    with cb C mw ds show ?thesis
      by (auto simp: iterator_def Listener_call_def Let_def execute_passes_on emit_event_def
            project_def split: if_splits)
  next
    case (Some e)
    have lc: "Listener_call r i l msg st = (Throw e, ?st1\<lparr>heap := hp\<rparr>)"
      using cb Some C mw by (simp add: Listener_call_def Let_def execute_passes_on emit_event_def)
    obtain z st2 where em: "emit_error r e (Some (new_Response msg (JArray []))) (?st1\<lparr>heap := hp\<rparr>) = (z, st2)"
      by (cases "emit_error r e (Some (new_Response msg (JArray []))) (?st1\<lparr>heap := hp\<rparr>)")
    have "project executed st2 = project executed (?st1\<lparr>heap := hp\<rparr>)"
      by (rule project_emit_error[OF _ em]) simp
    moreover have "project attempted st2 = project attempted (?st1\<lparr>heap := hp\<rparr>)"
      by (rule project_emit_error[OF _ em]) simp
    moreover have "z \<noteq> NoReturn"
      using em by (rule emit_error_no_stall)
    ultimately show ?thesis using lc em ds
      by (cases z) (auto simp: iterator_def)
  qed
qed


lemma three_listeners_first_done:
  assumes ls: "listeners r = [A, B, C]"
    and mw: "\<forall>mw \<in> set (listener_middleware r). passes_on mw"
    and m: "message (response ctx) = Some msg"
    and A: "matcher A msg = Inr vA" "truthy vA"
    and cbA: "callback A (new_Response msg vA) (heap st) = (hpA, None)"
    and d: "is_done hpA msg"
  shows "project executed (snd (processListeners r ctx cb st)) =
           project executed st @ [(0, new_Response msg vA)]
     \<and> project attempted (snd (processListeners r ctx cb st)) = project attempted st @ [0]"
proof -
  let ?st1 = "st\<lparr>trace := trace st @ [MatcherCalled 0 msg, CallbackCalled 0 (new_Response msg vA)],
                  heap := hpA\<rparr>"
  have lc: "Listener_call r 0 A msg st = (Return True, ?st1)"
    by (rule Listener_call_executes_returns[OF mw A cbA])
  have "detectSeries r msg 0 (listeners r) False st = (Return (False \<or> True), ?st1)"
    unfolding ls using lc by (rule detectSeries_stops_when_done) (simp add: d)
  then have ds: "detectSeries r msg 0 (listeners r) False st = (Return True, ?st1)" by simp
  have "processListeners r ctx cb st =
      (case cb of None \<Rightarrow> (Return (), ?st1) | Some f \<Rightarrow> (Return (), emit_event (DoneCalled f) ?st1))"
    using processListeners_no_fallback[OF m ds, of cb] by simp
  moreover have "project executed ?st1 = project executed st @ [(0, new_Response msg vA)]"
    and "project attempted ?st1 = project attempted st @ [0]"
    by (simp_all add: project_def)
  ultimately show ?thesis by (simp split: option.splits)
qed

lemma three_listeners_first_not_done:
  assumes ls: "listeners r = [A, B, C]"
    and mw: "\<forall>mw \<in> set (listener_middleware r). passes_on mw"
    and m: "message (response ctx) = Some msg"
    and A: "matcher A msg = Inr vA" "truthy vA"
    and B: "matcher B msg = Inr vB" "\<not> truthy vB"
    and C: "matcher C msg = Inr vC" "truthy vC"
    and cbA: "callback A (new_Response msg vA) (heap st) = (hpA, None)"
    and d: "\<not> is_done hpA msg"
  shows "project executed (snd (processListeners r ctx cb st)) =
           project executed st @ [(0, new_Response msg vA), (2, new_Response msg vC)]
     \<and> project attempted (snd (processListeners r ctx cb st)) = project attempted st @ [0, 1, 2]"
proof -
  let ?st1 = "st\<lparr>trace := trace st @ [MatcherCalled 0 msg, CallbackCalled 0 (new_Response msg vA)],
                  heap := hpA\<rparr>"
  let ?st2 = "emit_event (MatcherCalled 1 msg) ?st1"
  have lcA: "Listener_call r 0 A msg st = (Return True, ?st1)"
    by (rule Listener_call_executes_returns[OF mw A cbA])
  have lcB: "Listener_call r 1 B msg ?st1 = (Return False, ?st2)"
    by (rule Listener_call_no_match[OF B])
  have "detectSeries r msg 0 (listeners r) False st = detectSeries r msg (Suc 0) [B, C] (False \<or> True) ?st1"
    unfolding ls using lcA by (rule detectSeries_continues) (simp add: d)
  also have "\<dots> = detectSeries r msg (Suc (Suc 0)) [C] ((False \<or> True) \<or> False) ?st2"
    using lcB by (intro detectSeries_continues) (simp_all add: d emit_event_def)
  finally have ds: "detectSeries r msg 0 (listeners r) False st = detectSeries r msg 2 [C] True ?st2"
    by (simp add: numeral_2_eq_2)
  obtain x st3 where ds3: "detectSeries r msg 2 [C] True ?st2 = (x, st3)"
    by (cases "detectSeries r msg 2 [C] True ?st2")
  from detectSeries_last_executes[OF mw C ds3]
  have e: "project executed st3 = project executed ?st2 @ [(2, new_Response msg vC)]"
    and a: "project attempted st3 = project attempted ?st2 @ [2]"
    and x: "x = Return True \<or> (\<exists>e. x = Throw e)" by simp_all
  have e2: "project executed ?st2 = project executed st @ [(0, new_Response msg vA)]"
    and a2: "project attempted ?st2 = project attempted st @ [0, 1]"
    by (simp_all add: project_def emit_event_def)
  from x show ?thesis
  proof
    assume "x = Return True"
    with ds ds3 have "detectSeries r msg 0 (listeners r) False st = (Return True, st3)"
      by simp
    from processListeners_no_fallback[OF m this, of cb]
    have "processListeners r ctx cb st =
        (case cb of None \<Rightarrow> (Return (), st3) | Some f \<Rightarrow> (Return (), emit_event (DoneCalled f) st3))"
      by simp
    then show ?thesis using e a e2 a2 by (simp split: option.splits)
  next
    assume "\<exists>e. x = Throw e"
    then obtain e' where "x = Throw e'" ..
    with ds ds3 have "processListeners r ctx cb st = (Throw e', st3)"
      using processListeners_stops[OF m, of r st x st3 cb] by simp
    then show ?thesis using e a e2 a2 by simp
  qed
qed

text \<open>
  C6: the search evaluates the matchers of the listeners in registration order, from
  the first one on and without gaps, and when it returns before the last listener the
  message is done.  After an attempt that returns, the search stops when the message
  is done and goes on with the next listener when it is not.  With listeners
  \<open>[A, B, C]\<close> where \<open>A\<close> and \<open>C\<close> match (and the listener middleware passes on): when the
  message is done after the callback of \<open>A\<close>, only \<open>A\<close> is attempted and executed; when
  it is not, and \<open>B\<close> does not match, all three are attempted and \<open>A\<close> then \<open>C\<close> are
  executed.
\<close>

theorem listeners_tried_in_registration_order:
  "(detectSeries r msg i ls a st = (x, st') \<longrightarrow>
      (\<exists>k \<le> length ls. project attempted st' = project attempted st @ [i..<i + k] \<and>
         (k < length ls \<and> (\<exists>a'. x = Return a') \<longrightarrow> is_done (heap st') msg)))
   \<and> (Listener_call r i l msg st = (Return b, st1) \<and> is_done (heap st1) msg \<longrightarrow>
        detectSeries r msg i (l # ls) a st = (Return (a \<or> b), st1))
   \<and> (Listener_call r i l msg st = (Return b, st1) \<and> \<not> is_done (heap st1) msg \<longrightarrow>
        detectSeries r msg i (l # ls) a st = detectSeries r msg (Suc i) ls (a \<or> b) st1)
   \<and> (listeners r = [A, B, C] \<and> (\<forall>mw \<in> set (listener_middleware r). passes_on mw) \<and>
        message (response ctx) = Some msg \<and>
        matcher A msg = Inr vA \<and> truthy vA \<and> matcher C msg = Inr vC \<and> truthy vC \<and>
        callback A (new_Response msg vA) (heap st) = (hpA, None) \<and> is_done hpA msg \<longrightarrow>
        project executed (snd (processListeners r ctx cb st)) =
          project executed st @ [(0, new_Response msg vA)] \<and>
        project attempted (snd (processListeners r ctx cb st)) = project attempted st @ [0])
   \<and> (listeners r = [A, B, C] \<and> (\<forall>mw \<in> set (listener_middleware r). passes_on mw) \<and>
        message (response ctx) = Some msg \<and>
        matcher A msg = Inr vA \<and> truthy vA \<and> matcher B msg = Inr vB \<and> \<not> truthy vB \<and>
        matcher C msg = Inr vC \<and> truthy vC \<and>
        callback A (new_Response msg vA) (heap st) = (hpA, None) \<and> \<not> is_done hpA msg \<longrightarrow>
        project executed (snd (processListeners r ctx cb st)) =
          project executed st @ [(0, new_Response msg vA), (2, new_Response msg vC)] \<and>
        project attempted (snd (processListeners r ctx cb st)) =
          project attempted st @ [0, 1, 2])"
proof (intro conjI)
  show "detectSeries r msg i ls a st = (x, st') \<longrightarrow>
      (\<exists>k \<le> length ls. project attempted st' = project attempted st @ [i..<i + k] \<and>
         (k < length ls \<and> (\<exists>a'. x = Return a') \<longrightarrow> is_done (heap st') msg))"
    using attempted_detectSeries[of r msg i ls a st x st'] by blast
  show "Listener_call r i l msg st = (Return b, st1) \<and> is_done (heap st1) msg \<longrightarrow>
        detectSeries r msg i (l # ls) a st = (Return (a \<or> b), st1)"
    using detectSeries_stops_when_done[of r i l msg st b st1 ls a] by blast
  show "Listener_call r i l msg st = (Return b, st1) \<and> \<not> is_done (heap st1) msg \<longrightarrow>
        detectSeries r msg i (l # ls) a st = detectSeries r msg (Suc i) ls (a \<or> b) st1"
    using detectSeries_continues[of r i l msg st b st1 ls a] by blast
  show "listeners r = [A, B, C] \<and> (\<forall>mw \<in> set (listener_middleware r). passes_on mw) \<and>
        message (response ctx) = Some msg \<and>
        matcher A msg = Inr vA \<and> truthy vA \<and> matcher C msg = Inr vC \<and> truthy vC \<and>
        callback A (new_Response msg vA) (heap st) = (hpA, None) \<and> is_done hpA msg \<longrightarrow>
        project executed (snd (processListeners r ctx cb st)) =
          project executed st @ [(0, new_Response msg vA)] \<and>
        project attempted (snd (processListeners r ctx cb st)) = project attempted st @ [0]"
    using three_listeners_first_done[of r A B C ctx msg vA st hpA cb] by blast
  show "listeners r = [A, B, C] \<and> (\<forall>mw \<in> set (listener_middleware r). passes_on mw) \<and>
        message (response ctx) = Some msg \<and>
        matcher A msg = Inr vA \<and> truthy vA \<and> matcher B msg = Inr vB \<and> \<not> truthy vB \<and>
        matcher C msg = Inr vC \<and> truthy vC \<and>
        callback A (new_Response msg vA) (heap st) = (hpA, None) \<and> \<not> is_done hpA msg \<longrightarrow>
        project executed (snd (processListeners r ctx cb st)) =
          project executed st @ [(0, new_Response msg vA), (2, new_Response msg vC)] \<and>
        project attempted (snd (processListeners r ctx cb st)) =
          project attempted st @ [0, 1, 2]"
    using three_listeners_first_not_done[of r A B C ctx msg vA vB vC st hpA cb] by blast
qed

theorem listeners_tried_in_registration_order_witness:
  "project executed (snd (processListeners
      \<lparr>name = ''Webby'', robot_alias = None,
       listeners = [\<lparr>matcher = \<lambda>m. Inr (JBool True), options = Options [],
                     callback = \<lambda>res hp. (case message res of None \<Rightarrow> hp | Some m \<Rightarrow> finish m hp, None)\<rparr>,
                    \<lparr>matcher = \<lambda>m. Inr (JBool False), options = Options [],
                     callback = \<lambda>res hp. (hp, None)\<rparr>,
                    \<lparr>matcher = \<lambda>m. Inr (JBool True), options = Options [],
                     callback = \<lambda>res hp. (hp, None)\<rparr>],
       errorHandlers = [], listener_middleware = [], receive_middleware = []\<rparr>
      \<lparr>ctx_listener = None, response = new_Response (TextMessage ''alice'' 0 ''hello'') JUndefined\<rparr>
      (Some ''onSettled'') \<lparr>heap = \<lambda>i. False, trace = []\<rparr>))
     = [(0, new_Response (TextMessage ''alice'' 0 ''hello'') (JBool True))]
   \<and> project executed (snd (processListeners
      \<lparr>name = ''Webby'', robot_alias = None,
       listeners = [\<lparr>matcher = \<lambda>m. Inr (JBool True), options = Options [],
                     callback = \<lambda>res hp. (hp, None)\<rparr>,
                    \<lparr>matcher = \<lambda>m. Inr (JBool False), options = Options [],
                     callback = \<lambda>res hp. (hp, None)\<rparr>,
                    \<lparr>matcher = \<lambda>m. Inr (JBool True), options = Options [],
                     callback = \<lambda>res hp. (hp, None)\<rparr>],
       errorHandlers = [], listener_middleware = [], receive_middleware = []\<rparr>
      \<lparr>ctx_listener = None, response = new_Response (TextMessage ''alice'' 0 ''hello'') JUndefined\<rparr>
      (Some ''onSettled'') \<lparr>heap = \<lambda>i. False, trace = []\<rparr>))
     = [(0, new_Response (TextMessage ''alice'' 0 ''hello'') (JBool True)),
        (2, new_Response (TextMessage ''alice'' 0 ''hello'') (JBool True))]"
proof -
  let ?A1 = "\<lparr>matcher = \<lambda>m. Inr (JBool True), options = Options [],
                     callback = \<lambda>res (hp :: heap).
                       (case message res of None \<Rightarrow> hp | Some m \<Rightarrow> finish m hp,
                        None :: jserror option)\<rparr>"
  let ?A2 = "\<lparr>matcher = \<lambda>m. Inr (JBool True), options = Options [],
                     callback = \<lambda>res (hp :: heap). (hp, None :: jserror option)\<rparr>"
  let ?B = "\<lparr>matcher = \<lambda>m. Inr (JBool False), options = Options [],
                     callback = \<lambda>res (hp :: heap). (hp, None :: jserror option)\<rparr>"
  let ?r1 = "\<lparr>name = ''Webby'', robot_alias = None, listeners = [?A1, ?B, ?A2],
       errorHandlers = [], listener_middleware = [], receive_middleware = []\<rparr>"
  let ?r2 = "\<lparr>name = ''Webby'', robot_alias = None, listeners = [?A2, ?B, ?A2],
       errorHandlers = [], listener_middleware = [], receive_middleware = []\<rparr>"
  let ?msg = "TextMessage ''alice'' 0 ''hello''"
  let ?ctx = "\<lparr>ctx_listener = None, response = new_Response ?msg JUndefined\<rparr>"
  let ?st = "\<lparr>heap = \<lambda>i. False, trace = []\<rparr>"
  have a1: "listeners ?r1 = [?A1, ?B, ?A2] \<and> (\<forall>mw \<in> set (listener_middleware ?r1). passes_on mw) \<and>
        message (response ?ctx) = Some ?msg \<and>
        matcher ?A1 ?msg = Inr (JBool True) \<and> truthy (JBool True) \<and>
        matcher ?A2 ?msg = Inr (JBool True) \<and> truthy (JBool True) \<and>
        callback ?A1 (new_Response ?msg (JBool True)) (heap ?st) = ((\<lambda>i. False)(0 := True), None) \<and>
        is_done ((\<lambda>i. False)(0 := True)) ?msg"
    by (simp add: new_Response_def is_done_def finish_def)
  have a2: "listeners ?r2 = [?A2, ?B, ?A2] \<and> (\<forall>mw \<in> set (listener_middleware ?r2). passes_on mw) \<and>
        message (response ?ctx) = Some ?msg \<and>
        matcher ?A2 ?msg = Inr (JBool True) \<and> truthy (JBool True) \<and>
        matcher ?B ?msg = Inr (JBool False) \<and> \<not> truthy (JBool False) \<and>
        matcher ?A2 ?msg = Inr (JBool True) \<and> truthy (JBool True) \<and>
        callback ?A2 (new_Response ?msg (JBool True)) (heap ?st) = (\<lambda>i. False, None) \<and>
        \<not> is_done (\<lambda>i. False) ?msg"
    by (simp add: new_Response_def is_done_def)
  have e: "project executed ?st = []" by (simp add: project_def)
  from listeners_tried_in_registration_order[where r = ?r1 and A = ?A1 and B = ?B and C = ?A2
         and ctx = ?ctx and msg = ?msg and vA = "JBool True" and vC = "JBool True"
         and st = ?st and hpA = "(\<lambda>i. False)(0 := True)" and cb = "Some ''onSettled''"] a1
  have "project executed (snd (processListeners ?r1 ?ctx (Some ''onSettled'') ?st)) =
          project executed ?st @ [(0, new_Response ?msg (JBool True))]"
    by blast
  moreover
  from listeners_tried_in_registration_order[where r = ?r2 and A = ?A2 and B = ?B and C = ?A2
         and ctx = ?ctx and msg = ?msg and vA = "JBool True" and vB = "JBool False"
         and vC = "JBool True" and st = ?st and hpA = "\<lambda>i. False" and cb = "Some ''onSettled''"] a2
  have "project executed (snd (processListeners ?r2 ?ctx (Some ''onSettled'') ?st)) =
          project executed ?st @ [(0, new_Response ?msg (JBool True)),
                                  (2, new_Response ?msg (JBool True))]"
    by blast
  ultimately show ?thesis using e by simp
qed

section \<open>A pass without a completion callback\<close>

text \<open>
  At the end of the search \<^verbatim>\<open>processListeners\<close> tests the completion callback before it
  calls it: without a callback it returns and calls nothing, where calling the missing
  callback would throw.
\<close>

lemma processListeners_without_callback:
  assumes "message (response ctx) = Some msg"
    and "detectSeries r msg 0 (listeners r) False st = (Return a, st1)"
    and "instanceof_CatchAllMessage msg \<or> a"
  shows "processListeners r ctx None st = (Return (), st1)"
    and "call_done None st1 = (Throw (TypeError ''done is not a function''), st1)"
  using processListeners_no_fallback[OF assms, of None] by simp_all

text \<open>A pass without a completion callback calls no completion callback.\<close>

lemma receive_without_callback_calls_nothing:
  "project done_call (snd (receive r msg None st)) = project done_call st"
proof -
  obtain fb where fb: "fb = [] \<or> fb = [fallback] \<and> \<not> instanceof_CatchAllMessage msg"
    and ev: "project done_call (snd (receive r msg None st)) =
       project done_call st @ concat (map done_call fb) @
         (if fst (receive r msg None st) = Return () then
            (case None of None \<Rightarrow> [] | Some f \<Rightarrow> done_call (DoneCalled f)) else [])"
    using receive_events[of done_call msg r None st] by auto
  have "concat (map done_call fb) = []" using fb by auto
  with ev show ?thesis by simp
qed

text \<open>
  A pass without a completion callback returns, for every message and every list of
  listeners, when no registered error handler throws, nothing throws \<^verbatim>\<open>undefined\<close> or
  \<^verbatim>\<open>null\<close>, the listener middleware keeps its contract and the receive middleware only
  passes on.
\<close>

lemma receive_without_callback_returns_under_contract:
  assumes "handlers_return r" and "middleware_contract r" and "thrown_have_stack r"
    and "\<forall>mw \<in> set (receive_middleware r). passes_on mw"
  shows "fst (receive r msg None st) = Return ()"
  using receive_returns[OF assms(1,2,3), of None msg st] assms(4) by simp

lemma receive_without_callback_example:
  "receive
      \<lparr>name = ''Webby'', robot_alias = None,
       listeners = [\<lparr>matcher = \<lambda>m. Inr (JBool False), options = Options [],
                     callback = \<lambda>res hp. (hp, None)\<rparr>],
       errorHandlers = [], listener_middleware = [], receive_middleware = []\<rparr>
      (TextMessage ''alice'' 0 ''hello'') None \<lparr>heap = \<lambda>i. False, trace = []\<rparr>
   = (Return (),
      \<lparr>heap = \<lambda>i. False,
       trace = [MatcherCalled 0 (TextMessage ''alice'' 0 ''hello''),
                LoggerDebug ''No listeners executed; falling back to catch-all'',
                MatcherCalled 0
                  (CatchAllMessage ''alice'' 1 (TextMessage ''alice'' 0 ''hello''))]\<rparr>)"
  by (simp add: receive.simps processListeners.simps new_Response_def iterator_def
        Listener_call_def emit_event_def new_CatchAllMessage_def is_done_def fun_eq_iff)

text \<open>
  C10, at a listener whose callback throws: with the completion callback left out and
  a registered error handler that throws, the TypeError of \<^verbatim>\<open>invokeErrorHandlers\<close>
  leaves the catch block of \<^verbatim>\<open>processListeners\<close> and the pass throws; it does not reach
  the test of the callback.  The same happens, with no error handler at all, when the
  callback of the listener throws \<^verbatim>\<open>undefined\<close>.
\<close>

theorem receive_without_callback_throws_when_reporting_throws:
  "receive
     \<lparr>name = ''Webby'', robot_alias = None,
      listeners = [\<lparr>matcher = \<lambda>m. Inr (JBool True), options = Options [],
                    callback = \<lambda>res hp. (hp, Some (Error ''listener failed''))\<rparr>],
      errorHandlers = [\<lambda>err res hp. (hp, Some (Error ''handler failed''))],
      listener_middleware = [], receive_middleware = []\<rparr>
     (TextMessage ''alice'' 0 ''hello'') None \<lparr>heap = \<lambda>i. False, trace = []\<rparr>
   = (Throw (TypeError ''Cannot read property logger of undefined''),
      \<lparr>heap = \<lambda>i. False,
       trace = [MatcherCalled 0 (TextMessage ''alice'' 0 ''hello''),
                CallbackCalled 0
                  \<lparr>message = Some (TextMessage ''alice'' 0 ''hello''), match = JBool True\<rparr>,
                LoggerError ''Error: listener failed'',
                ErrorHandlerCalled 0 (Error ''listener failed'')
                  (Some \<lparr>message = Some (TextMessage ''alice'' 0 ''hello''),
                         match = JArray []\<rparr>)]\<rparr>)
   \<and> receive
     \<lparr>name = ''Webby'', robot_alias = None,
      listeners = [\<lparr>matcher = \<lambda>m. Inr (JBool True), options = Options [],
                    callback = \<lambda>res hp. (hp, Some ThrownUndefined)\<rparr>],
      errorHandlers = [],
      listener_middleware = [], receive_middleware = []\<rparr>
     (TextMessage ''alice'' 0 ''hello'') None \<lparr>heap = \<lambda>i. False, trace = []\<rparr>
   = (Throw (TypeError ''Cannot read property stack of undefined''),
      \<lparr>heap = \<lambda>i. False,
       trace = [MatcherCalled 0 (TextMessage ''alice'' 0 ''hello''),
                CallbackCalled 0
                  \<lparr>message = Some (TextMessage ''alice'' 0 ''hello''), match = JBool True\<rparr>]\<rparr>)"
  by (simp add: receive.simps processListeners.simps new_Response_def iterator_def
        Listener_call_def emit_error_def invokeErrorHandlers_def emit_event_def)

section \<open>Properties of the pattern builder\<close>

lemma split_not_Nil [simp]: "split sep s \<noteq> []"
  by (induction s) (auto split: list.splits)

lemma join_split: "join [sep] (split sep s) = s"
proof (induction s)
  case Nil
  then show ?case by simp
next
  case (Cons c cs)
  show ?case
  proof (cases "c = sep")
    case True
    obtain w ws where "split sep cs = w # ws" using split_not_Nil by (cases "split sep cs") auto
    with True Cons show ?thesis by simp
  next
    case False
    obtain w ws where w: "split sep cs = w # ws" using split_not_Nil by (cases "split sep cs") auto
    with False Cons show ?thesis by (cases ws) auto
  qed
qed

lemma split_append_sep:
  "sep \<notin> set f \<Longrightarrow> split sep f = [f]"
  by (induction f) auto

lemma split_append:
  "sep \<notin> set f \<Longrightarrow> split sep (s @ sep # f) = split sep s @ [f]"
proof (induction s)
  case Nil
  then show ?case by (simp add: split_append_sep)
next
  case (Cons c cs)
  obtain w ws where w: "split sep cs = w # ws" using split_not_Nil by (cases "split sep cs") auto
  with Cons show ?case by auto
qed

lemma pop_snoc: "pop (xs @ [y]) = (xs, Some y)"
  by (cases xs) simp_all

lemma split_toString:
  assumes "CHR ''/'' \<notin> set (flags regex)"
  shows "pop (shift (split (CHR ''/'') (toString regex))) =
     (split (CHR ''/'') (source regex), Some (flags regex))"
  using split_append[OF assms, of "source regex"]
  by (simp add: toString_def pop_snoc)


lemma special_not_word: "special c \<Longrightarrow> \<not> is_word c"
  unfolding special_def is_space_def backslash_def
  by (auto simp: is_word_def is_lower_def is_upper_def is_digit_def)

lemma escape_atom_special: "special c \<Longrightarrow> escape_atom c = Some (Lit c)"
  using special_not_word[of c]
  by (auto simp: escape_atom_def is_word_def is_lower_def is_upper_def)

lemma normal_step_not_special:
  "\<not> special c \<Longrightarrow>
     normal_step q (alts, cur) stk c = Some (Normal, Atom, (alts, cur @ [Lit c]), stk)"
  by (simp add: normal_step_def special_def)

lemma run_escape:
  "run (Normal, q, (alts, cur), stk) (escape s @ rest) =
     run (Normal, if s = [] then q else Atom, (alts, cur @ map Lit s), stk) rest"
proof (induction s arbitrary: q cur)
  case Nil
  then show ?case by simp
next
  case (Cons c cs)
  show ?case
  proof (cases "special c")
    case True
    then show ?thesis
      using Cons[of Atom "cur @ [Lit c]"]
      by (simp add: normal_step_def escape_atom_special)
  next
    case False
    then show ?thesis
      using Cons[of Atom "cur @ [Lit c]"]
      by (simp add: normal_step_not_special)
  qed
qed

lemma parse_escape: "parse (escape s) = Some (seq_of (map Lit s))"
  using run_escape[of NoAtom "[]" "[]" "[]" s "[]"]
  by (simp add: parse_def)


lemma respondPattern_name_alias:
  "name r = name r' \<Longrightarrow> robot_alias r = robot_alias r' \<Longrightarrow>
     respondPattern r regex = respondPattern r' regex"
  by (simp add: respondPattern_def)

lemma Webby_foo_pattern:
  "snd (respondPattern
        \<lparr>name = ''Webby'', robot_alias = None, listeners = [], errorHandlers = [],
         listener_middleware = [], receive_middleware = []\<rparr>
        \<lparr>source = ''foo'', flags = ''''\<rparr>)
   = Some \<lparr>source = ''^'' @ [backslash] @ ''s*[@]?Webby[:,]?'' @ [backslash] @ ''s*(?:foo)'',
           flags = ''''\<rparr>"
  by code_simp

lemma Webby_foo_i_pattern:
  "snd (respondPattern
        \<lparr>name = ''Webby'', robot_alias = None, listeners = [], errorHandlers = [],
         listener_middleware = [], receive_middleware = []\<rparr>
        \<lparr>source = ''foo'', flags = ''i''\<rparr>)
   = Some \<lparr>source = ''^'' @ [backslash] @ ''s*[@]?Webby[:,]?'' @ [backslash] @ ''s*(?:foo)'',
           flags = ''i''\<rparr>"
  by code_simp

lemma Webby_foo_tests:
  "test \<lparr>source = ''^'' @ [backslash] @ ''s*[@]?Webby[:,]?'' @ [backslash] @ ''s*(?:foo)'',
         flags = ''''\<rparr> ''Webby: foo'' = Some True"
  "test \<lparr>source = ''^'' @ [backslash] @ ''s*[@]?Webby[:,]?'' @ [backslash] @ ''s*(?:foo)'',
         flags = ''''\<rparr> ''@Webby foo'' = Some True"
  "test \<lparr>source = ''^'' @ [backslash] @ ''s*[@]?Webby[:,]?'' @ [backslash] @ ''s*(?:foo)'',
         flags = ''''\<rparr> ''webby, foo'' = Some False"
  "test \<lparr>source = ''^'' @ [backslash] @ ''s*[@]?Webby[:,]?'' @ [backslash] @ ''s*(?:foo)'',
         flags = ''''\<rparr> ''foofoo webby'' = Some False"
  by code_simp+

lemma Webby_foo_i_tests:
  "test \<lparr>source = ''^'' @ [backslash] @ ''s*[@]?Webby[:,]?'' @ [backslash] @ ''s*(?:foo)'',
         flags = ''i''\<rparr> ''Webby: foo'' = Some True"
  "test \<lparr>source = ''^'' @ [backslash] @ ''s*[@]?Webby[:,]?'' @ [backslash] @ ''s*(?:foo)'',
         flags = ''i''\<rparr> ''@Webby foo'' = Some True"
  "test \<lparr>source = ''^'' @ [backslash] @ ''s*[@]?Webby[:,]?'' @ [backslash] @ ''s*(?:foo)'',
         flags = ''i''\<rparr> ''webby, foo'' = Some True"
  "test \<lparr>source = ''^'' @ [backslash] @ ''s*[@]?Webby[:,]?'' @ [backslash] @ ''s*(?:foo)'',
         flags = ''i''\<rparr> ''foofoo webby'' = Some False"
  by code_simp+

text \<open>
  C7: for the name \<^verbatim>\<open>Webby\<close>, no alias and the body \<^verbatim>\<open>foo\<close>, \<^verbatim>\<open>respondPattern\<close> builds
  the pattern \<^verbatim>\<open>^\s*[@]?Webby[:,]?\s*(?:foo)\<close> with the flags of the body.  It matches
  \<^verbatim>\<open>Webby: foo\<close> and \<^verbatim>\<open>@Webby foo\<close> and does not match \<^verbatim>\<open>foofoo webby\<close>, with or
  without the flag \<^verbatim>\<open>i\<close>; it matches \<^verbatim>\<open>webby, foo\<close> with the flag \<^verbatim>\<open>i\<close>, and not without
  it.
\<close>

theorem respondPattern_Webby_foo:
  "snd (respondPattern
          \<lparr>name = ''Webby'', robot_alias = None, listeners = ls, errorHandlers = hs,
           listener_middleware = lm, receive_middleware = rm\<rparr>
          \<lparr>source = ''foo'', flags = ''''\<rparr>)
     = Some \<lparr>source = ''^'' @ [backslash] @ ''s*[@]?Webby[:,]?'' @ [backslash] @ ''s*(?:foo)'',
             flags = ''''\<rparr>
   \<and> snd (respondPattern
          \<lparr>name = ''Webby'', robot_alias = None, listeners = ls, errorHandlers = hs,
           listener_middleware = lm, receive_middleware = rm\<rparr>
          \<lparr>source = ''foo'', flags = ''i''\<rparr>)
     = Some \<lparr>source = ''^'' @ [backslash] @ ''s*[@]?Webby[:,]?'' @ [backslash] @ ''s*(?:foo)'',
             flags = ''i''\<rparr>
   \<and> test \<lparr>source = ''^'' @ [backslash] @ ''s*[@]?Webby[:,]?'' @ [backslash] @ ''s*(?:foo)'',
           flags = ''''\<rparr> ''Webby: foo'' = Some True
   \<and> test \<lparr>source = ''^'' @ [backslash] @ ''s*[@]?Webby[:,]?'' @ [backslash] @ ''s*(?:foo)'',
           flags = ''''\<rparr> ''@Webby foo'' = Some True
   \<and> test \<lparr>source = ''^'' @ [backslash] @ ''s*[@]?Webby[:,]?'' @ [backslash] @ ''s*(?:foo)'',
           flags = ''''\<rparr> ''webby, foo'' = Some False
   \<and> test \<lparr>source = ''^'' @ [backslash] @ ''s*[@]?Webby[:,]?'' @ [backslash] @ ''s*(?:foo)'',
           flags = ''''\<rparr> ''foofoo webby'' = Some False
   \<and> test \<lparr>source = ''^'' @ [backslash] @ ''s*[@]?Webby[:,]?'' @ [backslash] @ ''s*(?:foo)'',
           flags = ''i''\<rparr> ''Webby: foo'' = Some True
   \<and> test \<lparr>source = ''^'' @ [backslash] @ ''s*[@]?Webby[:,]?'' @ [backslash] @ ''s*(?:foo)'',
           flags = ''i''\<rparr> ''@Webby foo'' = Some True
   \<and> test \<lparr>source = ''^'' @ [backslash] @ ''s*[@]?Webby[:,]?'' @ [backslash] @ ''s*(?:foo)'',
           flags = ''i''\<rparr> ''webby, foo'' = Some True
   \<and> test \<lparr>source = ''^'' @ [backslash] @ ''s*[@]?Webby[:,]?'' @ [backslash] @ ''s*(?:foo)'',
           flags = ''i''\<rparr> ''foofoo webby'' = Some False"
proof -
  let ?r = "\<lparr>name = ''Webby'', robot_alias = None, listeners = ls, errorHandlers = hs,
             listener_middleware = lm, receive_middleware = rm\<rparr>"
  let ?closed = "\<lparr>name = ''Webby'', robot_alias = None, listeners = [], errorHandlers = [],
             listener_middleware = [], receive_middleware = []\<rparr>"
  have "snd (respondPattern ?r \<lparr>source = ''foo'', flags = ''''\<rparr>) =
      snd (respondPattern ?closed \<lparr>source = ''foo'', flags = ''''\<rparr>)"
    by (rule arg_cong[OF respondPattern_name_alias]) simp_all
  also note Webby_foo_pattern
  finally have p: "snd (respondPattern ?r \<lparr>source = ''foo'', flags = ''''\<rparr>) =
      Some \<lparr>source = ''^'' @ [backslash] @ ''s*[@]?Webby[:,]?'' @ [backslash] @ ''s*(?:foo)'',
             flags = ''''\<rparr>" .
  have "snd (respondPattern ?r \<lparr>source = ''foo'', flags = ''i''\<rparr>) =
      snd (respondPattern ?closed \<lparr>source = ''foo'', flags = ''i''\<rparr>)"
    by (rule arg_cong[OF respondPattern_name_alias]) simp_all
  also note Webby_foo_i_pattern
  finally have q: "snd (respondPattern ?r \<lparr>source = ''foo'', flags = ''i''\<rparr>) =
      Some \<lparr>source = ''^'' @ [backslash] @ ''s*[@]?Webby[:,]?'' @ [backslash] @ ''s*(?:foo)'',
             flags = ''i''\<rparr>" .
  show ?thesis
    by (intro conjI p q Webby_foo_tests Webby_foo_i_tests)
qed


lemma escape_plain: "\<forall>c \<in> set s. \<not> special c \<Longrightarrow> escape s = s"
  by (induction s) auto

lemma length_escape_append: "length (escape (s @ t)) = length (escape s) + length (escape t)"
  by (induction s) auto

lemma length_escape_pos: "t \<noteq> [] \<Longrightarrow> 0 < length (escape t)"
  by (cases t) auto

lemma respondPattern_alias:
  assumes "robot_alias r = Some al" and "al \<noteq> []" and "CHR ''/'' \<notin> set (flags regex)"
  shows "snd (respondPattern r regex) =
     new_RegExp
       (''^'' @ [backslash] @ ''s*[@]?(?:''
          @ (if length (escape (name r)) > length (escape al) then escape (name r) else escape al)
          @ ''[:,]?|''
          @ (if length (escape (name r)) > length (escape al) then escape al else escape (name r))
          @ ''[:,]?)'' @ [backslash] @ ''s*(?:'' @ source regex @ '')'')
       (Some (flags regex))"
proof -
  obtain a as where al: "al = a # as" using assms(2) by (cases al) auto
  have j: "join ''/'' (split (CHR ''/'') (source regex)) = source regex"
    using join_split[of "CHR ''/''" "source regex"] by simp
  show ?thesis
    using assms(1) al j
    by (simp add: respondPattern_def split_toString[OF assms(3)] Let_def split: prod.splits)
qed

lemma Webby_Bot_pattern:
  "snd (respondPattern
        \<lparr>name = ''Webby'', robot_alias = Some ''Bot'', listeners = [], errorHandlers = [],
         listener_middleware = [], receive_middleware = []\<rparr>
        \<lparr>source = ''foo'', flags = ''''\<rparr>)
   = Some \<lparr>source = ''^'' @ [backslash] @ ''s*[@]?(?:Webby[:,]?|Bot[:,]?)'' @ [backslash]
                     @ ''s*(?:foo)'',
           flags = ''''\<rparr>"
  by code_simp

lemma Webby_Bot_tests:
  "test \<lparr>source = ''^'' @ [backslash] @ ''s*[@]?(?:Webby[:,]?|Bot[:,]?)'' @ [backslash]
                     @ ''s*(?:foo)'',
         flags = ''''\<rparr> ''Webby: foo'' = Some True"
  "test \<lparr>source = ''^'' @ [backslash] @ ''s*[@]?(?:Webby[:,]?|Bot[:,]?)'' @ [backslash]
                     @ ''s*(?:foo)'',
         flags = ''''\<rparr> ''Bot: foo'' = Some True"
  by code_simp+

text \<open>
  C8, with the order as the source decides it: with a name and an alias (and flags
  without a slash) the built pattern is \<^verbatim>\<open>^\s*[@]?(?:a[:,]?|b[:,]?)\s*(?:body)\<close> where
  \<open>a\<close> and \<open>b\<close> are the escaped name and the escaped alias, \<open>a\<close> the one whose escaped
  text is longer (the source compares the lengths after escaping) and the alias when
  both escaped texts are equally long.  An escaped text is read as the literal
  characters of the original.  A text without a special character is escaped to
  itself, and a text is escaped to a shorter text than any proper extension of it: an
  alias that is a proper prefix of the name comes second.  With the name \<^verbatim>\<open>Webby\<close> and
  the alias \<^verbatim>\<open>Bot\<close> the pattern matches \<^verbatim>\<open>Webby: foo\<close> and \<^verbatim>\<open>Bot: foo\<close>.
\<close>

theorem respondPattern_alias_order:
  "(robot_alias r = Some al \<and> al \<noteq> [] \<and> CHR ''/'' \<notin> set (flags regex) \<longrightarrow>
      snd (respondPattern r regex) =
        new_RegExp
          (''^'' @ [backslash] @ ''s*[@]?(?:''
             @ (if length (escape (name r)) > length (escape al) then escape (name r)
                else escape al)
             @ ''[:,]?|''
             @ (if length (escape (name r)) > length (escape al) then escape al
                else escape (name r))
             @ ''[:,]?)'' @ [backslash] @ ''s*(?:'' @ source regex @ '')'')
          (Some (flags regex)))
   \<and> parse (escape s) = Some (seq_of (map Lit s))
   \<and> ((\<forall>c \<in> set s. \<not> special c) \<longrightarrow> escape s = s)
   \<and> (t \<noteq> [] \<longrightarrow> length (escape (s @ t)) > length (escape s))
   \<and> snd (respondPattern
          \<lparr>name = ''Webby'', robot_alias = Some ''Bot'', listeners = ls, errorHandlers = hs,
           listener_middleware = lm, receive_middleware = rm\<rparr>
          \<lparr>source = ''foo'', flags = ''''\<rparr>)
     = Some \<lparr>source = ''^'' @ [backslash] @ ''s*[@]?(?:Webby[:,]?|Bot[:,]?)'' @ [backslash]
                       @ ''s*(?:foo)'',
             flags = ''''\<rparr>
   \<and> test \<lparr>source = ''^'' @ [backslash] @ ''s*[@]?(?:Webby[:,]?|Bot[:,]?)'' @ [backslash]
                     @ ''s*(?:foo)'',
           flags = ''''\<rparr> ''Webby: foo'' = Some True
   \<and> test \<lparr>source = ''^'' @ [backslash] @ ''s*[@]?(?:Webby[:,]?|Bot[:,]?)'' @ [backslash]
                     @ ''s*(?:foo)'',
           flags = ''''\<rparr> ''Bot: foo'' = Some True"
proof -
  let ?r = "\<lparr>name = ''Webby'', robot_alias = Some ''Bot'', listeners = ls, errorHandlers = hs,
             listener_middleware = lm, receive_middleware = rm\<rparr>"
  let ?closed = "\<lparr>name = ''Webby'', robot_alias = Some ''Bot'', listeners = [],
             errorHandlers = [], listener_middleware = [], receive_middleware = []\<rparr>"
  have "snd (respondPattern ?r \<lparr>source = ''foo'', flags = ''''\<rparr>) =
      snd (respondPattern ?closed \<lparr>source = ''foo'', flags = ''''\<rparr>)"
    by (rule arg_cong[OF respondPattern_name_alias]) simp_all
  also note Webby_Bot_pattern
  finally have p: "snd (respondPattern ?r \<lparr>source = ''foo'', flags = ''''\<rparr>) =
      Some \<lparr>source = ''^'' @ [backslash] @ ''s*[@]?(?:Webby[:,]?|Bot[:,]?)'' @ [backslash]
                       @ ''s*(?:foo)'',
             flags = ''''\<rparr>" .
  have g: "robot_alias r = Some al \<and> al \<noteq> [] \<and> CHR ''/'' \<notin> set (flags regex) \<longrightarrow>
      snd (respondPattern r regex) =
        new_RegExp
          (''^'' @ [backslash] @ ''s*[@]?(?:''
             @ (if length (escape (name r)) > length (escape al) then escape (name r)
                else escape al)
             @ ''[:,]?|''
             @ (if length (escape (name r)) > length (escape al) then escape al
                else escape (name r))
             @ ''[:,]?)'' @ [backslash] @ ''s*(?:'' @ source regex @ '')'')
          (Some (flags regex))"
    using respondPattern_alias[of r al regex] by blast
  have e: "(\<forall>c \<in> set s. \<not> special c) \<longrightarrow> escape s = s"
    using escape_plain[of s] by blast
  have l: "t \<noteq> [] \<longrightarrow> length (escape (s @ t)) > length (escape s)"
    using length_escape_pos[of t] by (simp add: length_escape_append)
  show ?thesis
    by (intro conjI g parse_escape e l p Webby_Bot_tests)
qed

theorem respondPattern_alias_order_witness:
  "robot_alias \<lparr>name = ''Mr. T.'', robot_alias = Some ''webbybot'', listeners = [],
                errorHandlers = [], listener_middleware = [], receive_middleware = []\<rparr>
     = Some ''webbybot''
   \<and> ''webbybot'' \<noteq> []
   \<and> CHR ''/'' \<notin> set (flags \<lparr>source = ''foo'', flags = ''i''\<rparr>)
   \<and> snd (respondPattern
        \<lparr>name = ''Mr. T.'', robot_alias = Some ''webbybot'', listeners = [], errorHandlers = [],
         listener_middleware = [], receive_middleware = []\<rparr>
        \<lparr>source = ''foo'', flags = ''i''\<rparr>)
     = Some \<lparr>source = ''^'' @ [backslash] @ ''s*[@]?(?:Mr'' @ [backslash] @ ''.'' @ [backslash]
                       @ '' T'' @ [backslash] @ ''.[:,]?|webbybot[:,]?)'' @ [backslash]
                       @ ''s*(?:foo)'',
             flags = ''i''\<rparr>
   \<and> list_all (\<lambda>c. \<not> special c) ''webbybot''
   \<and> escape ''webbybot'' = ''webbybot''
   \<and> ''.x'' \<noteq> []
   \<and> length (escape (''webbybot'' @ ''.x'')) > length (escape ''webbybot'')"
proof -
  let ?r = "\<lparr>name = ''Mr. T.'', robot_alias = Some ''webbybot'', listeners = [],
                errorHandlers = [], listener_middleware = [], receive_middleware = []\<rparr>"
  let ?x = "\<lparr>source = ''foo'', flags = ''i''\<rparr>"
  have a: "robot_alias ?r = Some ''webbybot'' \<and> ''webbybot'' \<noteq> [] \<and> CHR ''/'' \<notin> set (flags ?x)"
    by simp
  have b: "\<forall>c \<in> set ''webbybot''. \<not> special c"
    by (simp add: special_def is_space_def backslash_def)
  have c: "length (escape ''webbybot'') < length (escape (name ?r))"
    by (simp add: special_def is_space_def backslash_def)
  have d: "''.x'' \<noteq> []" by simp
  have n: "new_RegExp
          (''^'' @ [backslash] @ ''s*[@]?(?:'' @ escape ''Mr. T.'' @ ''[:,]?|'' @ escape ''webbybot''
             @ ''[:,]?)'' @ [backslash] @ ''s*(?:'' @ ''foo'' @ '')'')
          (Some ''i'')
     = Some \<lparr>source = ''^'' @ [backslash] @ ''s*[@]?(?:Mr'' @ [backslash] @ ''.'' @ [backslash]
                       @ '' T'' @ [backslash] @ ''.[:,]?|webbybot[:,]?)'' @ [backslash]
                       @ ''s*(?:foo)'',
             flags = ''i''\<rparr>"
    by code_simp
  from respondPattern_alias_order[of ?r "''webbybot''" ?x "''webbybot''" "''.x''"] a b d
  have "snd (respondPattern ?r ?x) =
        new_RegExp
          (''^'' @ [backslash] @ ''s*[@]?(?:''
             @ (if length (escape (name ?r)) > length (escape ''webbybot'') then escape (name ?r)
                else escape ''webbybot'')
             @ ''[:,]?|''
             @ (if length (escape (name ?r)) > length (escape ''webbybot'') then escape ''webbybot''
                else escape (name ?r))
             @ ''[:,]?)'' @ [backslash] @ ''s*(?:'' @ source ?x @ '')'')
          (Some (flags ?x))"
    and e: "escape ''webbybot'' = ''webbybot''"
    and l: "length (escape (''webbybot'' @ ''.x'')) > length (escape ''webbybot'')"
    by blast+
  with c have "snd (respondPattern ?r ?x) =
        new_RegExp
          (''^'' @ [backslash] @ ''s*[@]?(?:'' @ escape ''Mr. T.'' @ ''[:,]?|'' @ escape ''webbybot''
             @ ''[:,]?)'' @ [backslash] @ ''s*(?:'' @ ''foo'' @ '')'')
          (Some ''i'')"
    by simp
  from this n have "snd (respondPattern ?r ?x) =
      Some \<lparr>source = ''^'' @ [backslash] @ ''s*[@]?(?:Mr'' @ [backslash] @ ''.'' @ [backslash]
                       @ '' T'' @ [backslash] @ ''.[:,]?|webbybot[:,]?)'' @ [backslash]
                       @ ''s*(?:foo)'',
             flags = ''i''\<rparr>"
    by (rule trans)
  moreover have "list_all (\<lambda>c. \<not> special c) ''webbybot''"
    using b by (simp only: list_all_iff)
  ultimately show ?thesis using a d e l by blast
qed

text \<open>
  The order of the two alternatives is not the order of the lengths of the name and the
  alias as they are written: with the name \<^verbatim>\<open>a.b.c\<close> (five characters, seven once
  escaped) and the alias \<^verbatim>\<open>abcdef\<close> (six characters), the name comes first.
\<close>

theorem respondPattern_shorter_name_first:
  "snd (respondPattern
        \<lparr>name = ''a.b.c'', robot_alias = Some ''abcdef'', listeners = [], errorHandlers = [],
         listener_middleware = [], receive_middleware = []\<rparr>
        \<lparr>source = ''foo'', flags = ''''\<rparr>)
     = Some \<lparr>source = ''^'' @ [backslash] @ ''s*[@]?(?:a'' @ [backslash] @ ''.b'' @ [backslash]
                       @ ''.c[:,]?|abcdef[:,]?)'' @ [backslash] @ ''s*(?:foo)'',
             flags = ''''\<rparr>
   \<and> length ''a.b.c'' < length ''abcdef''
   \<and> length (escape ''a.b.c'') > length (escape ''abcdef'')"
  by code_simp

end
